theory Spec2Isabelle
  imports Main
begin

section \<open>DSR penetration-testing suite: data model\<close>

text \<open>
  The source is \<^verbatim>\<open>tests/security/penetration-testing/dsr-penetration-test-suite.py\<close>,
  class \<^verbatim>\<open>DSRPenetrationTester\<close>. Console output (\<^verbatim>\<open>print\<close>) is not
  modelled. Python values that come from JSON are values of \<open>json\<close>; \<open>JNull\<close> is
  Python's \<^verbatim>\<open>None\<close>. JSON numbers with a fraction do not occur in any request the
  scanner builds and are left out of the type.
\<close>

datatype json =
    JNull
  | JBool bool
  | JInt int
  | JString string
  | JArray "json list"
  | JObject "(string \<times> json) list"

text \<open>Python truthiness, as used by \<^verbatim>\<open>if include_auth and self.auth_token\<close>.\<close>

fun truthy :: "json \<Rightarrow> bool" where
  "truthy JNull = False"
| "truthy (JBool b) = b"
| "truthy (JInt n) = (n \<noteq> 0)"
| "truthy (JString s) = (s \<noteq> [])"
| "truthy (JArray xs) = (xs \<noteq> [])"
| "truthy (JObject kvs) = (kvs \<noteq> [])"

text \<open>
  A Python dict keeps insertion order; \<^verbatim>\<open>d[k] = v\<close> overwrites in place when the key is
  present and appends otherwise. \<^verbatim>\<open>d.get(k)\<close> is \<open>map_of d k\<close>.
\<close>

fun dict_set :: "'k \<Rightarrow> 'v \<Rightarrow> ('k \<times> 'v) list \<Rightarrow> ('k \<times> 'v) list" where
  "dict_set k v [] = [(k, v)]"
| "dict_set k v ((k', v') # kvs) =
     (if k' = k then (k, v) # kvs else (k', v') # dict_set k v kvs)"

subsection \<open>Strings\<close>

text \<open>
  \<^verbatim>\<open>str.lower()\<close> on the letters A to Z; every other character is left as it is.
\<close>

definition lower_char :: "char \<Rightarrow> char" where
  "lower_char c =
     (let n = (of_char c :: nat) in if 65 \<le> n \<and> n \<le> 90 then char_of (n + 32) else c)"

definition lower :: "string \<Rightarrow> string" where
  "lower s = map lower_char s"

fun starts_with :: "string \<Rightarrow> string \<Rightarrow> bool" where
  "starts_with [] s = True"
| "starts_with (p # ps) [] = False"
| "starts_with (p # ps) (c # cs) = (p = c \<and> starts_with ps cs)"

text \<open>Python's substring test \<^verbatim>\<open>needle in haystack\<close>.\<close>

fun contains :: "string \<Rightarrow> string \<Rightarrow> bool" where
  "contains needle [] = (needle = [])"
| "contains needle (c # cs) = (starts_with needle (c # cs) \<or> contains needle cs)"

text \<open>\<^verbatim>\<open>sep.join(xs)\<close>.\<close>

fun join :: "string \<Rightarrow> string list \<Rightarrow> string" where
  "join sep [] = []"
| "join sep [x] = x"
| "join sep (x # y # ys) = x @ sep @ join sep (y # ys)"

text \<open>\<^verbatim>\<open>str(n)\<close> for an integer, as an f-string formats a status code.\<close>

fun digits :: "nat \<Rightarrow> string" where
  "digits n =
     (if n < 10 then [char_of (48 + n)]
      else digits (n div 10) @ [char_of (48 + n mod 10)])"

declare digits.simps [simp del]

definition str_int :: "int \<Rightarrow> string" where
  "str_int i = (if i < 0 then CHR ''-'' # digits (nat (- i)) else digits (nat i))"

subsection \<open>HTTP\<close>

datatype http_method = GET | POST

text \<open>
  A header value is a literal, or \<open>Bearer t\<close> for the f-string
  \<^verbatim>\<open>f'Bearer {self.auth_token}'\<close> with the token \<open>t\<close>.
\<close>

datatype header_value = Lit string | Bearer json

record request =
  req_method :: http_method
  req_url :: string
  req_params :: "(string \<times> string) list"
  req_json :: "json option"
  req_headers :: "(string \<times> header_value) list"
  req_timeout :: nat

text \<open>
  A response: \<open>resp_text\<close> is \<^verbatim>\<open>response.text\<close>; \<open>json_body\<close> is what
  \<^verbatim>\<open>response.json()\<close> returns, \<open>None\<close> when it raises.
\<close>

record response =
  status_code :: int
  resp_text :: string
  json_body :: "json option"

datatype request_exception = Timeout | ConnectionError | RequestException string

text \<open>
  The outside world: \<open>http\<close> answers a request with a response or with the exception that
  \<^verbatim>\<open>requests.get\<close>/\<^verbatim>\<open>requests.post\<close> raises; \<open>now k\<close> is the reading of
  \<^verbatim>\<open>datetime.now().isoformat()\<close> when \<open>k\<close> findings have been logged.
\<close>

record env =
  http :: "request \<Rightarrow> request_exception + response"
  now :: "nat \<Rightarrow> string"

subsection \<open>The tester\<close>

record finding =
  timestamp :: string
  service :: string
  vuln_type :: string
  severity :: string
  description :: string
  evidence :: string
  recommendation :: string

text \<open>
  The fields of \<^verbatim>\<open>DSRPenetrationTester\<close> (\<^verbatim>\<open>test_results\<close> is never read or
  written after construction and is left out), and \<open>sent\<close>, the requests issued so far,
  oldest first.
\<close>

record tester =
  base_url :: string
  auth_token :: json
  services :: "(string \<times> string) list"
  vulnerabilities :: "finding list"
  sent :: "request list"

definition init :: "string \<Rightarrow> json \<Rightarrow> tester" where
  "init url tok =
     \<lparr> base_url = url,
       auth_token = tok,
       services =
         [(''registration'', url @ '':8080''),
          (''data_management'', url @ '':8081''),
          (''eligibility'', url @ '':8082''),
          (''interoperability'', url @ '':8083''),
          (''payment'', url @ '':8084''),
          (''grievance'', url @ '':8085''),
          (''analytics'', url @ '':8086'')],
       vulnerabilities = [],
       sent = [] \<rparr>"

text \<open>Issuing a request: the answer of the world, and the request added to the trace.\<close>

definition send :: "env \<Rightarrow> request \<Rightarrow> tester \<Rightarrow> (request_exception + response) \<times> tester" where
  "send e r st = (http e r, st\<lparr>sent := sent st @ [r]\<rparr>)"

text \<open>\<^verbatim>\<open>self.services['registration']\<close> raises \<^verbatim>\<open>KeyError\<close> on a missing key.\<close>

definition authenticate :: "env \<Rightarrow> string \<Rightarrow> string \<Rightarrow> tester \<Rightarrow> bool \<times> tester" where
  "authenticate e email password st =
     (case map_of (services st) ''registration'' of
        None \<Rightarrow> (False, st)
      | Some base \<Rightarrow>
          (let auth_url = base @ ''/api/v1/auth/login'';
               r = \<lparr> req_method = POST, req_url = auth_url, req_params = [],
                     req_json = Some (JObject [(''email'', JString email),
                                               (''password'', JString password)]),
                     req_headers = [], req_timeout = 30 \<rparr>;
               (ans, st1) = send e r st
           in case ans of
                Inl ex \<Rightarrow> (False, st1)
              | Inr resp \<Rightarrow>
                  if status_code resp = 200 then
                    (case json_body resp of
                       None \<Rightarrow> (False, st1)
                     | Some (JObject auth_data) \<Rightarrow>
                         (True, st1\<lparr>auth_token :=
                            (case map_of auth_data ''accessToken'' of
                               None \<Rightarrow> JNull | Some t \<Rightarrow> t)\<rparr>)
                     | Some _ \<Rightarrow> (False, st1))
                  else (False, st1)))"

definition get_headers :: "tester \<Rightarrow> bool \<Rightarrow> (string \<times> header_value) list" where
  "get_headers st include_auth =
     (let headers = [(''Content-Type'', Lit ''application/json''),
                     (''User-Agent'', Lit ''DSR-PenTest-Suite/1.0'')]
      in if include_auth \<and> truthy (auth_token st)
         then dict_set ''Authorization'' (Bearer (auth_token st)) headers
         else headers)"

definition log_vulnerability ::
  "env \<Rightarrow> string \<Rightarrow> string \<Rightarrow> string \<Rightarrow> string \<Rightarrow> string \<Rightarrow> string \<Rightarrow> tester \<Rightarrow> tester" where
  "log_vulnerability e svc vtype sev descr evid recomm st =
     (let vulnerability =
            \<lparr> timestamp = now e (length (vulnerabilities st)),
              service = svc,
              vuln_type = vtype,
              severity = sev,
              description = descr,
              evidence = evid,
              recommendation = recomm \<rparr>
      in st\<lparr>vulnerabilities := vulnerabilities st @ [vulnerability]\<rparr>)"

subsection \<open>Aggregation\<close>

definition count_severity :: "string \<Rightarrow> tester \<Rightarrow> nat" where
  "count_severity sev st = length (filter (\<lambda>v. severity v = sev) (vulnerabilities st))"

definition get_overall_security_status :: "tester \<Rightarrow> string" where
  "get_overall_security_status st =
     (let critical_vulns = count_severity ''CRITICAL'' st;
          high_vulns = count_severity ''HIGH'' st
      in if critical_vulns > 0 then ''CRITICAL_RISK''
         else if high_vulns > 3 then ''HIGH_RISK''
         else if high_vulns > 0 then ''MEDIUM_RISK''
         else ''LOW_RISK'')"

section \<open>The five probes\<close>

text \<open>
  Each probe returns its per-service tally, a dict from service name to a dict with a
  count and a status, and the tester with the findings and the trace extended. A loop
  whose body only ends in \<^verbatim>\<open>continue\<close> is a \<open>fold\<close> of its body; the payload loop
  of the SQL probe, which has a \<^verbatim>\<open>break\<close>, is a recursion.
\<close>

type_synonym results = "(string \<times> (string \<times> json) list) list"

definition tally :: "string \<Rightarrow> nat \<Rightarrow> (string \<times> json) list" where
  "tally key n =
     [(key, JInt (int n)),
      (''status'', JString (if n > 0 then ''VULNERABLE'' else ''SECURE''))]"

subsection \<open>Authentication bypass\<close>

definition auth_bypass_step ::
  "env \<Rightarrow> string \<Rightarrow> string \<Rightarrow> string \<Rightarrow> tester \<times> nat \<Rightarrow> tester \<times> nat" where
  "auth_bypass_step e service_name service_url endpoint = (\<lambda>(st, bypass_attempts).
     let r = \<lparr> req_method = GET, req_url = service_url @ endpoint, req_params = [],
               req_json = None, req_headers = [], req_timeout = 10 \<rparr>;
         (ans, st1) = send e r st
     in case ans of
          Inl ex \<Rightarrow> (st1, bypass_attempts)
        | Inr response \<Rightarrow>
            if status_code response = 200 then
              (let content = lower (resp_text response)
               in if list_ex (\<lambda>keyword. contains keyword content)
                       [''password'', ''secret'', ''key'', ''token'']
                  then (log_vulnerability e service_name ''Sensitive Data Exposure'' ''HIGH''
                          (''Endpoint '' @ endpoint @
                             '' exposes sensitive information without authentication'')
                          (''Response contains sensitive keywords: '' @
                             str_int (status_code response))
                          ''Implement proper authentication and data filtering'' st1,
                        bypass_attempts + 1)
                  else (st1, bypass_attempts))
            else (st1, bypass_attempts))"

definition auth_bypass_service ::
  "env \<Rightarrow> string \<times> string \<Rightarrow> tester \<times> results \<Rightarrow> tester \<times> results" where
  "auth_bypass_service e = (\<lambda>(service_name, service_url) (st, results).
     let test_endpoints = [''/api/v1/health'', ''/api/v1/admin/users'', ''/api/v1/config'',
                           ''/actuator/env'', ''/actuator/configprops''];
         (st', bypass_attempts) =
            fold (auth_bypass_step e service_name service_url) test_endpoints (st, 0)
     in (st', dict_set service_name (tally ''bypass_attempts'' bypass_attempts) results))"

definition test_authentication_bypass :: "env \<Rightarrow> tester \<Rightarrow> results \<times> tester" where
  "test_authentication_bypass e st =
     (let (st', results) = fold (auth_bypass_service e) (services st) (st, [])
      in (results, st'))"

subsection \<open>SQL injection\<close>

record sql_test_case =
  tc_endpoint :: string
  tc_param :: string

fun sql_payload_loop ::
  "env \<Rightarrow> string \<Rightarrow> string \<Rightarrow> sql_test_case \<Rightarrow> string list \<Rightarrow> tester \<times> nat \<Rightarrow> tester \<times> nat"
where
  "sql_payload_loop e service_name service_url test_case [] acc = acc"
| "sql_payload_loop e service_name service_url test_case (payload # rest)
       (st, vulnerable_endpoints) =
     (let params = [(tc_param test_case, payload)];
          r = \<lparr> req_method = GET, req_url = service_url @ tc_endpoint test_case,
                req_params = params, req_json = None,
                req_headers = get_headers st True, req_timeout = 10 \<rparr>;
          (ans, st1) = send e r st
      in case ans of
           Inl ex \<Rightarrow>
             sql_payload_loop e service_name service_url test_case rest
               (st1, vulnerable_endpoints)
         | Inr response \<Rightarrow>
             (let content = lower (resp_text response);
                  sql_errors = [''sql syntax'', ''mysql'', ''postgresql'', ''ora-'',
                                ''sqlite'', ''syntax error'']
              in if list_ex (\<lambda>error. contains error content) sql_errors
                 then (log_vulnerability e service_name ''SQL Injection'' ''CRITICAL''
                         (''SQL injection vulnerability in '' @ tc_endpoint test_case)
                         (''Payload: '' @ payload @ '', Response contains SQL errors'')
                         ''Use parameterized queries and input validation'' st1,
                       vulnerable_endpoints + 1)
                 else sql_payload_loop e service_name service_url test_case rest
                        (st1, vulnerable_endpoints)))"

definition sql_payloads :: "string list" where
  "sql_payloads =
     [[CHR 0x27] @ '' OR '' @ [CHR 0x27] @ ''1'' @ [CHR 0x27] @ ''='' @ [CHR 0x27] @ ''1'',
      [CHR 0x27] @ ''; DROP TABLE users; --'',
      [CHR 0x27] @ '' UNION SELECT version() --'',
      ''1'' @ [CHR 0x27] @ '' OR 1=1#'',
      ''admin'' @ [CHR 0x27] @ ''/**/OR/**/1=1#'']"

definition sql_test_cases :: "sql_test_case list" where
  "sql_test_cases =
     [\<lparr> tc_endpoint = ''/api/v1/search'', tc_param = ''query'' \<rparr>,
      \<lparr> tc_endpoint = ''/api/v1/households/search'', tc_param = ''name'' \<rparr>,
      \<lparr> tc_endpoint = ''/api/v1/users'', tc_param = ''filter'' \<rparr>]"

definition sql_service ::
  "env \<Rightarrow> string \<times> string \<Rightarrow> tester \<times> results \<Rightarrow> tester \<times> results" where
  "sql_service e = (\<lambda>(service_name, service_url) (st, results).
     let (st', vulnerable_endpoints) =
            fold (\<lambda>test_case. sql_payload_loop e service_name service_url test_case sql_payloads)
              sql_test_cases (st, 0)
     in (st', dict_set service_name (tally ''vulnerable_endpoints'' vulnerable_endpoints)
                results))"

definition test_sql_injection :: "env \<Rightarrow> tester \<Rightarrow> results \<times> tester" where
  "test_sql_injection e st =
     (let (st', results) = fold (sql_service e) (services st) (st, [])
      in (results, st'))"

subsection \<open>Cross-site scripting\<close>

record xss_endpoint =
  xe_url :: string
  xe_method :: string
  xe_fields :: "string list"

definition xss_payloads :: "string list" where
  "xss_payloads =
     [''<script>alert('' @ [CHR 0x22] @ ''XSS'' @ [CHR 0x22] @ '')</script>'',
      ''<img src='' @ [CHR 0x22] @ ''x'' @ [CHR 0x22] @ '' onerror='' @ [CHR 0x22] @
        ''alert(1)'' @ [CHR 0x22] @ ''>'',
      ''javascript:alert('' @ [CHR 0x22] @ ''XSS'' @ [CHR 0x22] @ '')'',
      ''<svg onload='' @ [CHR 0x22] @ ''alert(1)'' @ [CHR 0x22] @ ''>'',
      [CHR 0x22] @ ''><script>alert('' @ [CHR 0x22] @ ''XSS'' @ [CHR 0x22] @ '')</script>'']"

definition xss_test_endpoints :: "xss_endpoint list" where
  "xss_test_endpoints =
     [\<lparr> xe_url = ''/api/v1/grievances'', xe_method = ''POST'',
        xe_fields = [''complainantName'', ''description''] \<rparr>,
      \<lparr> xe_url = ''/api/v1/households'', xe_method = ''POST'',
        xe_fields = [''firstName'', ''lastName''] \<rparr>,
      \<lparr> xe_url = ''/api/v1/comments'', xe_method = ''POST'',
        xe_fields = [''content'', ''title''] \<rparr>]"

text \<open>
  The local variable \<^verbatim>\<open>response\<close> is assigned only under
  \<^verbatim>\<open>if endpoint['method'] == 'POST'\<close> and keeps its value from one iteration to the
  next; it is the third component of the loop state, \<open>None\<close> while unbound. Reading it
  unbound raises \<^verbatim>\<open>NameError\<close>, which the \<^verbatim>\<open>except\<close> turns into
  \<^verbatim>\<open>continue\<close>.
\<close>

definition xss_step ::
  "env \<Rightarrow> string \<Rightarrow> string \<Rightarrow> xss_endpoint \<Rightarrow> string \<Rightarrow>
   tester \<times> nat \<times> response option \<Rightarrow> tester \<times> nat \<times> response option" where
  "xss_step e service_name service_url endpoint payload = (\<lambda>(st, vulnerable_fields, response_var).
     let data = fold (\<lambda>field d. dict_set field (JString payload) d) (xe_fields endpoint) [];
         (raised, st1, response_var1) =
            (if xe_method endpoint = ''POST'' then
               (let r = \<lparr> req_method = POST, req_url = service_url @ xe_url endpoint,
                          req_params = [], req_json = Some (JObject data),
                          req_headers = get_headers st True, req_timeout = 10 \<rparr>;
                    (ans, st1) = send e r st
                in case ans of
                     Inl ex \<Rightarrow> (True, st1, response_var)
                   | Inr response \<Rightarrow> (False, st1, Some response))
             else (False, st, response_var))
     in if raised then (st1, vulnerable_fields, response_var1)
        else
          (case response_var1 of
             None \<Rightarrow> (st1, vulnerable_fields, response_var1)
           | Some response \<Rightarrow>
               if status_code response \<in> {200, 201} then
                 (let content = resp_text response
                  in if contains payload content \<and> contains ''<script>'' content
                     then (log_vulnerability e service_name ''Cross-Site Scripting (XSS)''
                             ''HIGH''
                             (''XSS vulnerability in '' @ xe_url endpoint)
                             (''Payload reflected without encoding: '' @ payload)
                             ''Implement proper input validation and output encoding'' st1,
                           vulnerable_fields + 1, response_var1)
                     else (st1, vulnerable_fields, response_var1))
               else (st1, vulnerable_fields, response_var1)))"

definition xss_service ::
  "env \<Rightarrow> string \<times> string \<Rightarrow> tester \<times> results \<times> response option \<Rightarrow>
   tester \<times> results \<times> response option" where
  "xss_service e = (\<lambda>(service_name, service_url) (st, results, response_var).
     let (st', vulnerable_fields, response_var') =
            fold (\<lambda>endpoint. fold (xss_step e service_name service_url endpoint) xss_payloads)
              xss_test_endpoints (st, 0, response_var)
     in (st', dict_set service_name (tally ''vulnerable_fields'' vulnerable_fields) results,
         response_var'))"

definition test_xss_vulnerabilities :: "env \<Rightarrow> tester \<Rightarrow> results \<times> tester" where
  "test_xss_vulnerabilities e st =
     (let (st', results, response_var) = fold (xss_service e) (services st) (st, [], None)
      in (results, st'))"

subsection \<open>Business logic\<close>

definition business_logic_service ::
  "env \<Rightarrow> string \<times> string \<Rightarrow> tester \<times> results \<Rightarrow> tester \<times> results" where
  "business_logic_service e = (\<lambda>(service_name, service_url) (st, results).
     let (st', logic_flaws) =
           (if service_name = ''eligibility'' then
              (let r = \<lparr> req_method = POST,
                         req_url = service_url @ ''/api/v1/eligibility/assessments'',
                         req_params = [],
                         req_json = Some (JObject
                           [(''householdId'', JString ''HH-TEST-123''),
                            (''monthlyIncome'', JInt (- 50000)),
                            (''assessmentType'', JString ''FULL_ASSESSMENT'')]),
                         req_headers = get_headers st True, req_timeout = 10 \<rparr>;
                   (ans, st1) = send e r st
               in case ans of
                    Inl ex \<Rightarrow> (st1, 0::nat)
                  | Inr response \<Rightarrow>
                      if status_code response \<in> {200, 201} then
                        (log_vulnerability e service_name ''Business Logic Bypass'' ''HIGH''
                           ''Negative income values accepted in eligibility assessment''
                           (''Negative income (-50000) was accepted: '' @
                              str_int (status_code response))
                           ''Implement server-side business rule validation'' st1,
                         0 + 1)
                      else (st1, 0))
            else if service_name = ''payment'' then
              (let r = \<lparr> req_method = POST, req_url = service_url @ ''/api/v1/payments'',
                         req_params = [],
                         req_json = Some (JObject
                           [(''beneficiaryId'', JString ''BEN-TEST-123''),
                            (''amount'', JInt 999999999),
                            (''programId'', JString ''PANTAWID'')]),
                         req_headers = get_headers st True, req_timeout = 10 \<rparr>;
                   (ans, st1) = send e r st
               in case ans of
                    Inl ex \<Rightarrow> (st1, 0)
                  | Inr response \<Rightarrow>
                      if status_code response \<in> {200, 201} then
                        (log_vulnerability e service_name ''Business Logic Bypass''
                           ''CRITICAL''
                           ''Unrealistic payment amounts accepted''
                           (''Large payment amount (999999999) was accepted: '' @
                              str_int (status_code response))
                           ''Implement payment amount limits and validation'' st1,
                         0 + 1)
                      else (st1, 0))
            else (st, 0))
     in (st', dict_set service_name (tally ''logic_flaws'' logic_flaws) results))"

definition test_business_logic_flaws :: "env \<Rightarrow> tester \<Rightarrow> results \<times> tester" where
  "test_business_logic_flaws e st =
     (let (st', results) = fold (business_logic_service e) (services st) (st, [])
      in (results, st'))"

subsection \<open>Information disclosure\<close>

definition info_disclosure_step ::
  "env \<Rightarrow> string \<Rightarrow> string \<Rightarrow> string \<Rightarrow> tester \<times> nat \<Rightarrow> tester \<times> nat" where
  "info_disclosure_step e service_name service_url endpoint = (\<lambda>(st, disclosure_issues).
     let r = \<lparr> req_method = GET, req_url = service_url @ endpoint, req_params = [],
               req_json = None, req_headers = [], req_timeout = 10 \<rparr>;
         (ans, st1) = send e r st
     in case ans of
          Inl ex \<Rightarrow> (st1, disclosure_issues)
        | Inr response \<Rightarrow>
            (let content = lower (resp_text response);
                 sensitive_keywords = [''password'', ''secret'', ''key'', ''token'',
                                       ''database'', ''connection'', ''jdbc'', ''username'',
                                       ''config''];
                 found_keywords = filter (\<lambda>kw. contains kw content) sensitive_keywords
             in if found_keywords \<noteq> [] \<and> status_code response \<noteq> 404
                then (log_vulnerability e service_name ''Information Disclosure'' ''MEDIUM''
                        (''Sensitive information exposed in '' @ endpoint)
                        (''Found keywords: '' @ join '', '' found_keywords)
                        ''Remove sensitive information from error messages and responses'' st1,
                      disclosure_issues + 1)
                else (st1, disclosure_issues)))"

definition info_disclosure_service ::
  "env \<Rightarrow> string \<times> string \<Rightarrow> tester \<times> results \<Rightarrow> tester \<times> results" where
  "info_disclosure_service e = (\<lambda>(service_name, service_url) (st, results).
     let test_endpoints = [''/api/v1/nonexistent'', ''/api/v1/users/999999'',
                           ''/api/v1/admin/config'', ''/actuator/env'',
                           ''/actuator/configprops''];
         (st', disclosure_issues) =
            fold (info_disclosure_step e service_name service_url) test_endpoints (st, 0)
     in (st', dict_set service_name (tally ''disclosure_issues'' disclosure_issues) results))"

definition test_information_disclosure :: "env \<Rightarrow> tester \<Rightarrow> results \<times> tester" where
  "test_information_disclosure e st =
     (let (st', results) = fold (info_disclosure_service e) (services st) (st, [])
      in (results, st'))"

section \<open>The full scan\<close>

record breakdown =
  critical :: nat
  high :: nat
  medium :: nat
  low :: nat

text \<open>
  The summary dict of \<^verbatim>\<open>run_comprehensive_test\<close>, without \<^verbatim>\<open>test_duration\<close>,
  a difference of two wall-clock readings in floating point.
\<close>

record summary =
  services_tested :: nat
  total_vulnerabilities :: nat
  vulnerability_breakdown :: breakdown
  test_results :: "(string \<times> results) list"
  summary_vulnerabilities :: "finding list"
  overall_security_status :: string

definition summarise :: "(string \<times> results) list \<Rightarrow> tester \<Rightarrow> summary" where
  "summarise results st =
     (let total = length (vulnerabilities st);
          critical_vulns = count_severity ''CRITICAL'' st;
          high_vulns = count_severity ''HIGH'' st;
          medium_vulns = count_severity ''MEDIUM'' st;
          low_vulns = count_severity ''LOW'' st
      in \<lparr> services_tested = length (services st),
           total_vulnerabilities = total,
           vulnerability_breakdown =
             \<lparr> critical = critical_vulns, high = high_vulns,
               medium = medium_vulns, low = low_vulns \<rparr>,
           test_results = results,
           summary_vulnerabilities = vulnerabilities st,
           overall_security_status = get_overall_security_status st \<rparr>)"

definition run_comprehensive_test :: "env \<Rightarrow> tester \<Rightarrow> summary \<times> tester" where
  "run_comprehensive_test e st =
     (let (r1, st1) = test_authentication_bypass e st;
          (r2, st2) = test_sql_injection e st1;
          (r3, st3) = test_xss_vulnerabilities e st2;
          (r4, st4) = test_business_logic_flaws e st3;
          (r5, st5) = test_information_disclosure e st4;
          results = [(''authentication_bypass'', r1),
                     (''sql_injection'', r2),
                     (''xss_vulnerabilities'', r3),
                     (''business_logic_flaws'', r4),
                     (''information_disclosure'', r5)]
      in (summarise results st5, st5))"

section \<open>Vocabulary of the properties\<close>

text \<open>
  Names for the parts of the probes that the properties speak about: the request each
  probe issues, the test it applies to the response, and the finding it logs. The
  lemmas of the next section show that every probe step is built from exactly these.
\<close>

text \<open>
  The invariant of the probes: \<open>extends st st'\<close> says that \<open>st'\<close> is \<open>st\<close> with
  findings of severity CRITICAL, HIGH or MEDIUM appended and with requests appended to the
  trace, each without headers or with the headers \<open>get_headers st True\<close>.
\<close>

definition allowed_severity :: "finding \<Rightarrow> bool" where
  "allowed_severity f = (severity f = ''CRITICAL'' \<or> severity f = ''HIGH'' \<or> severity f = ''MEDIUM'')"

definition probe_headers :: "tester \<Rightarrow> request \<Rightarrow> bool" where
  "probe_headers st r = (req_headers r = [] \<or> req_headers r = get_headers st True)"

definition extends :: "tester \<Rightarrow> tester \<Rightarrow> bool" where
  "extends st st' =
     (base_url st' = base_url st \<and> auth_token st' = auth_token st \<and> services st' = services st \<and>
      (\<exists>fs. vulnerabilities st' = vulnerabilities st @ fs \<and> list_all allowed_severity fs) \<and>
      (\<exists>rs. sent st' = sent st @ rs \<and> list_all (probe_headers st) rs))"

text \<open>
  Authentication bypass and information disclosure: the request without headers, the
  tests on the response, and the findings. \<open>logged r st\<close> is \<open>st\<close> after the request
  \<open>r\<close> was issued.
\<close>

definition get_request :: "string \<Rightarrow> request" where
  "get_request url = \<lparr> req_method = GET, req_url = url, req_params = [],
               req_json = None, req_headers = [], req_timeout = 10 \<rparr>"

definition auth_hit :: "response \<Rightarrow> bool" where
  "auth_hit r = (status_code r = 200 \<and>
     list_ex (\<lambda>keyword. contains keyword (lower (resp_text r)))
       [''password'', ''secret'', ''key'', ''token''])"

definition auth_record :: "env \<Rightarrow> string \<Rightarrow> string \<Rightarrow> response \<Rightarrow> tester \<Rightarrow> tester" where
  "auth_record e service_name endpoint response st =
     log_vulnerability e service_name ''Sensitive Data Exposure'' ''HIGH''
       (''Endpoint '' @ endpoint @ '' exposes sensitive information without authentication'')
       (''Response contains sensitive keywords: '' @ str_int (status_code response))
       ''Implement proper authentication and data filtering'' st"

definition logged :: "request \<Rightarrow> tester \<Rightarrow> tester" where
  "logged r st = st\<lparr>sent := sent st @ [r]\<rparr>"

definition info_found :: "response \<Rightarrow> string list" where
  "info_found r = filter (\<lambda>kw. contains kw (lower (resp_text r)))
     [''password'', ''secret'', ''key'', ''token'', ''database'', ''connection'', ''jdbc'',
      ''username'', ''config'']"

definition info_hit :: "response \<Rightarrow> bool" where
  "info_hit r = (info_found r \<noteq> [] \<and> status_code r \<noteq> 404)"

definition info_record :: "env \<Rightarrow> string \<Rightarrow> string \<Rightarrow> response \<Rightarrow> tester \<Rightarrow> tester" where
  "info_record e service_name endpoint response st =
     log_vulnerability e service_name ''Information Disclosure'' ''MEDIUM''
       (''Sensitive information exposed in '' @ endpoint)
       (''Found keywords: '' @ join '', '' (info_found response))
       ''Remove sensitive information from error messages and responses'' st"

text \<open>SQL injection, cross-site scripting and business logic, in the same way.\<close>

definition sql_request :: "tester \<Rightarrow> string \<Rightarrow> sql_test_case \<Rightarrow> string \<Rightarrow> request" where
  "sql_request st url tc payload =
     \<lparr> req_method = GET, req_url = url @ tc_endpoint tc,
       req_params = [(tc_param tc, payload)], req_json = None,
       req_headers = get_headers st True, req_timeout = 10 \<rparr>"

definition sql_hit :: "response \<Rightarrow> bool" where
  "sql_hit r = list_ex (\<lambda>error. contains error (lower (resp_text r)))
     [''sql syntax'', ''mysql'', ''postgresql'', ''ora-'', ''sqlite'', ''syntax error'']"

definition sql_record :: "env \<Rightarrow> string \<Rightarrow> sql_test_case \<Rightarrow> string \<Rightarrow> tester \<Rightarrow> tester" where
  "sql_record e service_name tc payload st =
     log_vulnerability e service_name ''SQL Injection'' ''CRITICAL''
       (''SQL injection vulnerability in '' @ tc_endpoint tc)
       (''Payload: '' @ payload @ '', Response contains SQL errors'')
       ''Use parameterized queries and input validation'' st"

definition xss_request :: "tester \<Rightarrow> string \<Rightarrow> xss_endpoint \<Rightarrow> string \<Rightarrow> request" where
  "xss_request st url ep payload =
     \<lparr> req_method = POST, req_url = url @ xe_url ep, req_params = [],
       req_json = Some (JObject (fold (\<lambda>field d. dict_set field (JString payload) d)
                                  (xe_fields ep) [])),
       req_headers = get_headers st True, req_timeout = 10 \<rparr>"

definition xss_hit :: "string \<Rightarrow> response \<Rightarrow> bool" where
  "xss_hit payload r = (status_code r \<in> {200, 201} \<and> contains payload (resp_text r) \<and>
     contains ''<script>'' (resp_text r))"

definition xss_record :: "env \<Rightarrow> string \<Rightarrow> xss_endpoint \<Rightarrow> string \<Rightarrow> tester \<Rightarrow> tester" where
  "xss_record e service_name ep payload st =
     log_vulnerability e service_name ''Cross-Site Scripting (XSS)'' ''HIGH''
       (''XSS vulnerability in '' @ xe_url ep)
       (''Payload reflected without encoding: '' @ payload)
       ''Implement proper input validation and output encoding'' st"

definition eligibility_request :: "tester \<Rightarrow> string \<Rightarrow> request" where
  "eligibility_request st url =
     \<lparr> req_method = POST, req_url = url @ ''/api/v1/eligibility/assessments'',
       req_params = [],
       req_json = Some (JObject [(''householdId'', JString ''HH-TEST-123''),
                                 (''monthlyIncome'', JInt (- 50000)),
                                 (''assessmentType'', JString ''FULL_ASSESSMENT'')]),
       req_headers = get_headers st True, req_timeout = 10 \<rparr>"

definition payment_request :: "tester \<Rightarrow> string \<Rightarrow> request" where
  "payment_request st url =
     \<lparr> req_method = POST, req_url = url @ ''/api/v1/payments'', req_params = [],
       req_json = Some (JObject [(''beneficiaryId'', JString ''BEN-TEST-123''),
                                 (''amount'', JInt 999999999),
                                 (''programId'', JString ''PANTAWID'')]),
       req_headers = get_headers st True, req_timeout = 10 \<rparr>"

definition accepted :: "response \<Rightarrow> bool" where
  "accepted r = (status_code r \<in> {200, 201})"

definition eligibility_record :: "env \<Rightarrow> string \<Rightarrow> response \<Rightarrow> tester \<Rightarrow> tester" where
  "eligibility_record e service_name response st =
     log_vulnerability e service_name ''Business Logic Bypass'' ''HIGH''
       ''Negative income values accepted in eligibility assessment''
       (''Negative income (-50000) was accepted: '' @ str_int (status_code response))
       ''Implement server-side business rule validation'' st"

definition payment_record :: "env \<Rightarrow> string \<Rightarrow> response \<Rightarrow> tester \<Rightarrow> tester" where
  "payment_record e service_name response st =
     log_vulnerability e service_name ''Business Logic Bypass'' ''CRITICAL''
       ''Unrealistic payment amounts accepted''
       (''Large payment amount (999999999) was accepted: '' @ str_int (status_code response))
       ''Implement payment amount limits and validation'' st"

text \<open>The endpoint lists that the two GET probes bind inside their service loops.\<close>

definition auth_endpoints :: "string list" where
  "auth_endpoints = [''/api/v1/health'', ''/api/v1/admin/users'', ''/api/v1/config'',
                     ''/actuator/env'', ''/actuator/configprops'']"

definition info_endpoints :: "string list" where
  "info_endpoints = [''/api/v1/nonexistent'', ''/api/v1/users/999999'',
                     ''/api/v1/admin/config'', ''/actuator/env'', ''/actuator/configprops'']"

text \<open>
  The login: its request, whether an answer makes \<open>authenticate\<close> succeed, and the token
  it then stores (\<^verbatim>\<open>auth_data.get('accessToken')\<close>).
\<close>

definition login_request :: "string \<Rightarrow> string \<Rightarrow> string \<Rightarrow> request" where
  "login_request base email password =
     \<lparr> req_method = POST, req_url = base @ ''/api/v1/auth/login'', req_params = [],
       req_json = Some (JObject [(''email'', JString email), (''password'', JString password)]),
       req_headers = [], req_timeout = 30 \<rparr>"

definition no_authorization :: "request \<Rightarrow> bool" where
  "no_authorization r = (map_of (req_headers r) ''Authorization'' = None)"





text \<open>The findings for the eligibility service that a run from \<open>st\<close> to \<open>st'\<close> appended.\<close>

definition eligibility_findings :: "tester \<Rightarrow> tester \<Rightarrow> finding list" where
  "eligibility_findings st st' =
     filter (\<lambda>f. service f = ''eligibility'')
       (drop (length (vulnerabilities st)) (vulnerabilities st'))"




text \<open>
  The answer to a payload of the SQL probe shows a database error; none of a list of
  payloads does; the first payload of the probe does; the answer is a response whose
  body contains \<open>sql syntax error\<close>.
\<close>

definition sql_answer_hit :: "env \<Rightarrow> tester \<Rightarrow> string \<Rightarrow> sql_test_case \<Rightarrow> string \<Rightarrow> bool" where
  "sql_answer_hit e st u tc p =
     (case http e (sql_request st u tc p) of Inl ex \<Rightarrow> False | Inr r \<Rightarrow> sql_hit r)"

definition sql_all_miss :: "env \<Rightarrow> tester \<Rightarrow> string \<Rightarrow> sql_test_case \<Rightarrow> string list \<Rightarrow> bool" where
  "sql_all_miss e st u tc ps = list_all (\<lambda>p. \<not> sql_answer_hit e st u tc p) ps"



text \<open>
  Every request raises; and the number of services the business-logic probe sends a
  request to.
\<close>

definition all_fail :: "env \<Rightarrow> bool" where
  "all_fail e = (\<forall>r. isl (http e r))"

definition business_targets :: "(string \<times> string) list \<Rightarrow> nat" where
  "business_targets svcs =
     length (filter (\<lambda>s. fst s = ''eligibility'' \<or> fst s = ''payment'') svcs)"



text \<open>
  The five probes by name, so that they can be run in an order other than the one of
  \<^verbatim>\<open>run_comprehensive_test\<close>; \<open>run_probe\<close> runs one probe on the tester and drops
  its tally.
\<close>

datatype probe =
  AuthenticationBypass | SqlInjection | Xss | BusinessLogic | InformationDisclosure

definition source_order :: "probe list" where
  "source_order = [AuthenticationBypass, SqlInjection, Xss, BusinessLogic, InformationDisclosure]"

fun run_probe :: "env \<Rightarrow> probe \<Rightarrow> tester \<Rightarrow> tester" where
  "run_probe e AuthenticationBypass st = snd (test_authentication_bypass e st)"
| "run_probe e SqlInjection st = snd (test_sql_injection e st)"
| "run_probe e Xss st = snd (test_xss_vulnerabilities e st)"
| "run_probe e BusinessLogic st = snd (test_business_logic_flaws e st)"
| "run_probe e InformationDisclosure st = snd (test_information_disclosure e st)"

definition run_probes :: "env \<Rightarrow> probe list \<Rightarrow> tester \<Rightarrow> tester" where
  "run_probes e ps st = fold (run_probe e) ps st"

text \<open>
  Two testers are similar when they carry the same token and the same services; the
  severities of the findings of a tester, in order; and two runs, from \<open>a\<close> to \<open>a'\<close>
  and from \<open>b\<close> to \<open>b'\<close>, that end with the same loop variables and have appended
  findings of the same severities.
\<close>

definition similar :: "tester \<Rightarrow> tester \<Rightarrow> bool" where
  "similar s t = (auth_token s = auth_token t \<and> services s = services t)"

definition severities :: "tester \<Rightarrow> string list" where
  "severities st = map severity (vulnerabilities st)"

definition coupled :: "tester \<times> 'x \<Rightarrow> tester \<times> 'x \<Rightarrow> tester \<times> 'x \<Rightarrow> tester \<times> 'x \<Rightarrow> bool" where
  "coupled a b a' b' =
     (snd a' = snd b' \<and> similar (fst a') (fst b') \<and>
      (\<exists>d. severities (fst a') = severities (fst a) @ d \<and>
           severities (fst b') = severities (fst b) @ d))"

definition linked :: "tester \<Rightarrow> tester \<Rightarrow> tester \<Rightarrow> tester \<Rightarrow> bool" where
  "linked s t s' t' =
     (similar s' t' \<and>
      (\<exists>d. severities s' = severities s @ d \<and> severities t' = severities t @ d))"

definition delta :: "env \<Rightarrow> tester \<Rightarrow> probe \<Rightarrow> string list" where
  "delta e st0 p = drop (length (severities st0)) (severities (run_probe e p st0))"

section \<open>Concrete inputs\<close>

definition mk_finding :: "string \<Rightarrow> finding" where
  "mk_finding sev =
     \<lparr> timestamp = ''2025-01-01T00:00:00'', service = ''payment'', vuln_type = ''t'',
       severity = sev, description = ''d'', evidence = ''e'', recommendation = ''r'' \<rparr>"

definition with_findings :: "string list \<Rightarrow> tester" where
  "with_findings sevs =
     (init ''http://localhost'' JNull)\<lparr>vulnerabilities := map mk_finding sevs\<rparr>"

definition tokenless_login_env :: env where
  "tokenless_login_env =
     \<lparr> http = (\<lambda>r. if req_url r = ''http://h:8080/api/v1/auth/login''
                     then Inr \<lparr> status_code = 200, resp_text = ''{}'',
                                json_body = Some (JObject []) \<rparr>
                     else Inr \<lparr> status_code = 404, resp_text = ''Not Found'',
                                json_body = None \<rparr>),
       now = (\<lambda>k. ''2025-01-01T00:00:00'') \<rparr>"




definition vulnerable_env :: env where
  "vulnerable_env =
     \<lparr> http = (\<lambda>r. Inr \<lparr> status_code = 200,
                            resp_text = ''MySQL error near <script>: Password'',
                            json_body = None \<rparr>),
       now = (\<lambda>k. ''2025-01-01T00:00:00'') \<rparr>"

text \<open>A service that answers every request with the same status and body.\<close>

definition answering :: "int \<Rightarrow> string \<Rightarrow> env" where
  "answering code body =
     \<lparr> http = (\<lambda>r. Inr \<lparr> status_code = code, resp_text = body, json_body = None \<rparr>),
       now = (\<lambda>k. ''2025-01-01T00:00:00'') \<rparr>"



text \<open>No service can be reached.\<close>

definition unreachable_env :: env where
  "unreachable_env =
     \<lparr> http = (\<lambda>r. Inl ConnectionError), now = (\<lambda>k. ''2025-01-01T00:00:00'') \<rparr>"


section \<open>Properties\<close>

subsection \<open>The shape of the probe steps, and what every probe preserves\<close>

text \<open>
  Each loop body of the source is rewritten in the vocabulary above (the lemmas named
  \<open>_shape\<close>, \<open>xss_step_post\<close>, \<open>business_logic_eligibility\<close> and so on), and every
  probe, and the whole scan, is shown to satisfy \<open>extends\<close>.
\<close>

lemma extends_refl: "extends st st"
  by (simp add: extends_def)

lemma get_headers_cong: "auth_token st' = auth_token st \<Longrightarrow> get_headers st' b = get_headers st b"
  by (simp add: get_headers_def Let_def)

lemma probe_headers_cong: "auth_token st' = auth_token st \<Longrightarrow> probe_headers st' = probe_headers st"
  using get_headers_cong [of st' st True] by (simp add: probe_headers_def fun_eq_iff)

lemma extends_trans:
  assumes "extends a b" and "extends b c"
  shows "extends a c"
proof -
  from assms(1) obtain fs rs where
    ab: "base_url b = base_url a" "auth_token b = auth_token a" "services b = services a"
        "vulnerabilities b = vulnerabilities a @ fs" "list_all allowed_severity fs"
        "sent b = sent a @ rs" "list_all (probe_headers a) rs"
    unfolding extends_def by blast
  from assms(2) obtain gs qs where
    bc: "base_url c = base_url b" "auth_token c = auth_token b" "services c = services b"
        "vulnerabilities c = vulnerabilities b @ gs" "list_all allowed_severity gs"
        "sent c = sent b @ qs" "list_all (probe_headers b) qs"
    unfolding extends_def by blast
  have "probe_headers b = probe_headers a"
    using ab(2) by (rule probe_headers_cong)
  with bc(7) have q: "list_all (probe_headers a) qs" by simp
  show ?thesis
    unfolding extends_def
    by (intro conjI exI [of _ "fs @ gs"] exI [of _ "rs @ qs"]) (simp_all add: ab bc q)
qed

lemma extends_send:
  "probe_headers st r \<Longrightarrow> extends st (st\<lparr>sent := sent st @ [r]\<rparr>)"
  by (simp add: extends_def)

lemma extends_log:
  "sev = ''CRITICAL'' \<or> sev = ''HIGH'' \<or> sev = ''MEDIUM'' \<Longrightarrow>
   extends st (log_vulnerability e a b sev c d f st)"
  by (simp add: extends_def log_vulnerability_def allowed_severity_def)

lemma extends_send_log:
  "probe_headers st r \<Longrightarrow> sev = ''CRITICAL'' \<or> sev = ''HIGH'' \<or> sev = ''MEDIUM'' \<Longrightarrow>
   extends st (log_vulnerability e a b sev c d f (st\<lparr>sent := sent st @ [r]\<rparr>))"
  by (simp add: extends_def log_vulnerability_def allowed_severity_def)

lemma fold_extends:
  assumes "\<And>x a. extends (fst a) (fst (f x a))"
  shows "extends (fst a) (fst (fold f xs a))"
proof (induction xs arbitrary: a)
  case Nil
  show ?case by (simp add: extends_refl)
next
  case (Cons x xs)
  have "extends (fst a) (fst (f x a))" by (rule assms)
  moreover have "extends (fst (f x a)) (fst (fold f xs (f x a)))" by (rule Cons.IH)
  ultimately have "extends (fst a) (fst (fold f xs (f x a)))" by (rule extends_trans)
  then show ?case by simp
qed

lemma auth_bypass_step_shape:
  "auth_bypass_step e n u ep (st, k) =
     (case http e (get_request (u @ ep)) of
        Inl ex \<Rightarrow> (logged (get_request (u @ ep)) st, k)
      | Inr r \<Rightarrow> if auth_hit r
                 then (auth_record e n ep r (logged (get_request (u @ ep)) st), Suc k)
                 else (logged (get_request (u @ ep)) st, k))"
  by (simp add: auth_bypass_step_def get_request_def auth_hit_def auth_record_def logged_def
        send_def Let_def del: list_ex_Cons_iff list_ex_Nil_iff split: sum.splits)

lemma info_disclosure_step_shape:
  "info_disclosure_step e n u ep (st, k) =
     (case http e (get_request (u @ ep)) of
        Inl ex \<Rightarrow> (logged (get_request (u @ ep)) st, k)
      | Inr r \<Rightarrow> if info_hit r
                 then (info_record e n ep r (logged (get_request (u @ ep)) st), Suc k)
                 else (logged (get_request (u @ ep)) st, k))"
  by (simp add: info_disclosure_step_def get_request_def info_hit_def info_found_def
        info_record_def logged_def send_def Let_def del: filter.simps split: sum.splits)

lemma sql_payload_loop_shape:
  "sql_payload_loop e n u tc (p # ps) (st, k) =
     (case http e (sql_request st u tc p) of
        Inl ex \<Rightarrow> sql_payload_loop e n u tc ps (logged (sql_request st u tc p) st, k)
      | Inr r \<Rightarrow> if sql_hit r
                 then (sql_record e n tc p (logged (sql_request st u tc p) st), Suc k)
                 else sql_payload_loop e n u tc ps (logged (sql_request st u tc p) st, k))"
  by (simp add: sql_request_def sql_hit_def sql_record_def logged_def
        send_def Let_def del: list_ex_Cons_iff list_ex_Nil_iff split: sum.splits)

lemma xss_step_post:
  "xe_method ep = ''POST'' \<Longrightarrow>
   xss_step e n u ep p (st, k, rv) =
     (case http e (xss_request st u ep p) of
        Inl ex \<Rightarrow> (logged (xss_request st u ep p) st, k, rv)
      | Inr r \<Rightarrow> if xss_hit p r
                 then (xss_record e n ep p (logged (xss_request st u ep p) st), Suc k, Some r)
                 else (logged (xss_request st u ep p) st, k, Some r))"
  by (simp add: xss_step_def xss_request_def xss_hit_def xss_record_def logged_def
        send_def Let_def split: sum.splits)

lemma xss_step_other:
  "xe_method ep \<noteq> ''POST'' \<Longrightarrow>
   xss_step e n u ep p (st, k, rv) =
     (case rv of
        None \<Rightarrow> (st, k, rv)
      | Some r \<Rightarrow> if xss_hit p r then (xss_record e n ep p st, Suc k, rv) else (st, k, rv))"
  by (simp add: xss_step_def xss_hit_def xss_record_def Let_def split: option.splits)

lemma business_logic_eligibility:
  "business_logic_service e (''eligibility'', u) (st, res) =
     (case http e (eligibility_request st u) of
        Inl ex \<Rightarrow> (logged (eligibility_request st u) st,
                   dict_set ''eligibility'' (tally ''logic_flaws'' 0) res)
      | Inr r \<Rightarrow>
          if accepted r
          then (eligibility_record e ''eligibility'' r (logged (eligibility_request st u) st),
                dict_set ''eligibility'' (tally ''logic_flaws'' 1) res)
          else (logged (eligibility_request st u) st,
                dict_set ''eligibility'' (tally ''logic_flaws'' 0) res))"
  by (simp add: business_logic_service_def eligibility_request_def accepted_def
        eligibility_record_def logged_def send_def Let_def split: sum.splits)

lemma business_logic_payment:
  "business_logic_service e (''payment'', u) (st, res) =
     (case http e (payment_request st u) of
        Inl ex \<Rightarrow> (logged (payment_request st u) st,
                   dict_set ''payment'' (tally ''logic_flaws'' 0) res)
      | Inr r \<Rightarrow>
          if accepted r
          then (payment_record e ''payment'' r (logged (payment_request st u) st),
                dict_set ''payment'' (tally ''logic_flaws'' 1) res)
          else (logged (payment_request st u) st,
                dict_set ''payment'' (tally ''logic_flaws'' 0) res))"
  by (simp add: business_logic_service_def payment_request_def accepted_def
        payment_record_def logged_def send_def Let_def split: sum.splits)

lemma business_logic_other:
  "n \<noteq> ''eligibility'' \<Longrightarrow> n \<noteq> ''payment'' \<Longrightarrow>
   business_logic_service e (n, u) (st, res) = (st, dict_set n (tally ''logic_flaws'' 0) res)"
  by (simp add: business_logic_service_def Let_def)

lemma probe_headers_requests:
  "probe_headers st (get_request url)"
  "probe_headers st (sql_request st u tc p)"
  "probe_headers st (xss_request st u ep p)"
  "probe_headers st (eligibility_request st u)"
  "probe_headers st (payment_request st u)"
  by (simp_all add: probe_headers_def get_request_def sql_request_def xss_request_def
        eligibility_request_def payment_request_def)

lemma extends_logged: "probe_headers st r \<Longrightarrow> extends st (logged r st)"
  by (simp add: logged_def extends_send)

lemma extends_records:
  "extends st (auth_record e n ep r st)"
  "extends st (info_record e n ep r st)"
  "extends st (sql_record e n tc p st)"
  "extends st (xss_record e n xep p st)"
  "extends st (eligibility_record e n r st)"
  "extends st (payment_record e n r st)"
  by (simp_all add: auth_record_def info_record_def sql_record_def xss_record_def
        eligibility_record_def payment_record_def extends_log)

lemma extends_logged_then:
  "probe_headers st r \<Longrightarrow> extends (logged r st) st' \<Longrightarrow> extends st st'"
  by (blast intro: extends_trans extends_logged)

lemma extends_logged_records:
  assumes "probe_headers st r"
  shows "extends st (auth_record e n ep x (logged r st))"
    and "extends st (info_record e n ep x (logged r st))"
    and "extends st (sql_record e n tc p (logged r st))"
    and "extends st (xss_record e n xep p (logged r st))"
    and "extends st (eligibility_record e n x (logged r st))"
    and "extends st (payment_record e n x (logged r st))"
  by (rule extends_logged_then [OF assms], rule extends_records)+

lemma auth_bypass_step_extends:
  "extends (fst a) (fst (auth_bypass_step e n u ep a))"
  by (cases a)
     (simp add: auth_bypass_step_shape extends_logged extends_logged_records
        probe_headers_requests split: sum.splits)

lemma info_disclosure_step_extends:
  "extends (fst a) (fst (info_disclosure_step e n u ep a))"
  by (cases a)
     (simp add: info_disclosure_step_shape extends_logged extends_logged_records
        probe_headers_requests split: sum.splits)

lemma sql_payload_loop_extends:
  "extends (fst a) (fst (sql_payload_loop e n u tc ps a))"
proof (induction ps arbitrary: a)
  case Nil
  show ?case by (simp add: extends_refl)
next
  case (Cons p ps)
  obtain st k where a: "a = (st, k)" by (cases a)
  have "extends st (fst (sql_payload_loop e n u tc ps (logged (sql_request st u tc p) st, k)))"
    using Cons.IH [of "(logged (sql_request st u tc p) st, k)"]
    by (auto intro: extends_logged_then [OF probe_headers_requests(2)])
  then show ?case
    by (simp add: a sql_payload_loop_shape extends_logged_records
          probe_headers_requests del: sql_payload_loop.simps split: sum.splits)
qed

lemma xss_step_extends:
  "extends (fst a) (fst (xss_step e n u ep p a))"
proof (cases "xe_method ep = ''POST''")
  case True
  then show ?thesis
    by (cases a)
       (simp add: xss_step_post extends_logged extends_logged_records
          probe_headers_requests split: sum.splits)
next
  case False
  then show ?thesis
    by (cases a)
       (simp add: xss_step_other extends_refl extends_records split: option.splits)
qed

lemma business_logic_service_extends:
  "extends (fst a) (fst (business_logic_service e s a))"
proof -
  obtain st res where a: "a = (st, res)" by (cases a)
  obtain n u where s: "s = (n, u)" by (cases s)
  consider "n = ''eligibility''" | "n = ''payment''" | "n \<noteq> ''eligibility''" "n \<noteq> ''payment''"
    by blast
  then show ?thesis
  proof cases
    case 1
    then show ?thesis
      by (simp add: a s business_logic_eligibility extends_logged extends_logged_records
            probe_headers_requests split: sum.splits)
  next
    case 2
    then show ?thesis
      by (simp add: a s business_logic_payment extends_logged extends_logged_records
            probe_headers_requests split: sum.splits)
  next
    case 3
    then show ?thesis
      by (simp add: a s business_logic_other extends_refl)
  qed
qed

lemma auth_bypass_service_shape:
  "auth_bypass_service e (n, u) (st, res) =
     (fst (fold (auth_bypass_step e n u) auth_endpoints (st, 0)),
      dict_set n (tally ''bypass_attempts''
        (snd (fold (auth_bypass_step e n u) auth_endpoints (st, 0)))) res)"
  by (simp add: auth_bypass_service_def auth_endpoints_def Let_def split_beta del: fold.simps)

lemma info_disclosure_service_shape:
  "info_disclosure_service e (n, u) (st, res) =
     (fst (fold (info_disclosure_step e n u) info_endpoints (st, 0)),
      dict_set n (tally ''disclosure_issues''
        (snd (fold (info_disclosure_step e n u) info_endpoints (st, 0)))) res)"
  by (simp add: info_disclosure_service_def info_endpoints_def Let_def split_beta
        del: fold.simps)

lemma sql_service_shape:
  "sql_service e (n, u) (st, res) =
     (fst (fold (\<lambda>tc. sql_payload_loop e n u tc sql_payloads) sql_test_cases (st, 0)),
      dict_set n (tally ''vulnerable_endpoints''
        (snd (fold (\<lambda>tc. sql_payload_loop e n u tc sql_payloads) sql_test_cases (st, 0))))
        res)"
  by (simp add: sql_service_def Let_def split_beta del: fold.simps)

lemma xss_service_shape:
  "xss_service e (n, u) (st, res, rv) =
     (fst (fold (\<lambda>ep. fold (xss_step e n u ep) xss_payloads) xss_test_endpoints (st, 0, rv)),
      dict_set n (tally ''vulnerable_fields''
        (fst (snd (fold (\<lambda>ep. fold (xss_step e n u ep) xss_payloads) xss_test_endpoints
                     (st, 0, rv))))) res,
      snd (snd (fold (\<lambda>ep. fold (xss_step e n u ep) xss_payloads) xss_test_endpoints
                  (st, 0, rv))))"
  by (simp add: xss_service_def Let_def split_beta del: fold.simps)

lemma auth_bypass_service_extends:
  "extends (fst a) (fst (auth_bypass_service e s a))"
  using fold_extends [of "auth_bypass_step e (fst s) (snd s)", OF auth_bypass_step_extends,
          of "(fst a, 0)" auth_endpoints]
  by (cases a; cases s) (simp add: auth_bypass_service_shape)

lemma info_disclosure_service_extends:
  "extends (fst a) (fst (info_disclosure_service e s a))"
  using fold_extends [of "info_disclosure_step e (fst s) (snd s)",
          OF info_disclosure_step_extends, of "(fst a, 0)" info_endpoints]
  by (cases a; cases s) (simp add: info_disclosure_service_shape)

lemma sql_service_extends:
  "extends (fst a) (fst (sql_service e s a))"
  using fold_extends [of "\<lambda>tc. sql_payload_loop e (fst s) (snd s) tc sql_payloads",
          OF sql_payload_loop_extends, of "(fst a, 0)" sql_test_cases]
  by (cases a; cases s) (simp add: sql_service_shape)

lemma xss_service_extends:
  "extends (fst a) (fst (xss_service e s a))"
proof -
  have inner: "extends (fst b) (fst (fold (xss_step e (fst s) (snd s) ep) xss_payloads b))"
    for ep b
    by (rule fold_extends) (rule xss_step_extends)
  have "extends (fst b) (fst (fold (\<lambda>ep. fold (xss_step e (fst s) (snd s) ep) xss_payloads)
           xss_test_endpoints b))" for b
    by (rule fold_extends) (rule inner)
  from this [of "(fst a, 0, snd (snd a))"] show ?thesis
    by (cases a; cases s) (simp add: xss_service_shape)
qed

lemma test_authentication_bypass_extends:
  "extends st (snd (test_authentication_bypass e st))"
  using fold_extends [of "auth_bypass_service e", OF auth_bypass_service_extends, of "(st, [])"]
  by (simp add: test_authentication_bypass_def split_beta)

lemma test_information_disclosure_extends:
  "extends st (snd (test_information_disclosure e st))"
  using fold_extends [of "info_disclosure_service e", OF info_disclosure_service_extends,
          of "(st, [])"]
  by (simp add: test_information_disclosure_def split_beta)

lemma test_sql_injection_extends:
  "extends st (snd (test_sql_injection e st))"
  using fold_extends [of "sql_service e", OF sql_service_extends, of "(st, [])"]
  by (simp add: test_sql_injection_def split_beta)

lemma test_xss_vulnerabilities_extends:
  "extends st (snd (test_xss_vulnerabilities e st))"
  using fold_extends [of "xss_service e", OF xss_service_extends, of "(st, [], None)"]
  by (simp add: test_xss_vulnerabilities_def split_beta)

lemma test_business_logic_flaws_extends:
  "extends st (snd (test_business_logic_flaws e st))"
  using fold_extends [of "business_logic_service e", OF business_logic_service_extends,
          of "(st, [])"]
  by (simp add: test_business_logic_flaws_def split_beta)

lemma run_comprehensive_test_state:
  "snd (run_comprehensive_test e st) =
     snd (test_information_disclosure e
       (snd (test_business_logic_flaws e
         (snd (test_xss_vulnerabilities e
           (snd (test_sql_injection e
             (snd (test_authentication_bypass e st)))))))))"
  by (simp add: run_comprehensive_test_def split_beta Let_def)

declare extends_trans [trans]

lemma run_comprehensive_test_extends:
  "extends st (snd (run_comprehensive_test e st))"
proof -
  let ?s1 = "snd (test_authentication_bypass e st)"
  let ?s2 = "snd (test_sql_injection e ?s1)"
  let ?s3 = "snd (test_xss_vulnerabilities e ?s2)"
  let ?s4 = "snd (test_business_logic_flaws e ?s3)"
  let ?s5 = "snd (test_information_disclosure e ?s4)"
  have "extends st ?s1" by (rule test_authentication_bypass_extends)
  also have "extends ?s1 ?s2" by (rule test_sql_injection_extends)
  also have "extends ?s2 ?s3" by (rule test_xss_vulnerabilities_extends)
  also have "extends ?s3 ?s4" by (rule test_business_logic_flaws_extends)
  also have "extends ?s4 ?s5" by (rule test_information_disclosure_extends)
  finally show ?thesis by (simp only: run_comprehensive_test_state)
qed

lemma count_allowed:
  "list_all allowed_severity fs \<Longrightarrow>
   length (filter (\<lambda>v. severity v = ''LOW'') fs) = 0 \<and>
   length fs = length (filter (\<lambda>v. severity v = ''CRITICAL'') fs)
             + length (filter (\<lambda>v. severity v = ''HIGH'') fs)
             + length (filter (\<lambda>v. severity v = ''MEDIUM'') fs)"
  by (induction fs) (auto simp: allowed_severity_def)

lemma extends_appended:
  "extends st st' \<Longrightarrow>
   list_all allowed_severity (drop (length (vulnerabilities st)) (vulnerabilities st'))"
  by (auto simp: extends_def)

lemma extends_sent:
  "extends st st' \<Longrightarrow>
   list_all (probe_headers st) (drop (length (sent st)) (sent st'))"
  by (auto simp: extends_def)

lemma run_comprehensive_test_summary:
  "fst (run_comprehensive_test e st) =
     summarise (test_results (fst (run_comprehensive_test e st)))
       (snd (run_comprehensive_test e st))"
  by (simp add: run_comprehensive_test_def split_beta Let_def summarise_def)

subsection \<open>Facts about single probes\<close>

lemma business_logic_state:
  assumes "services st = services (init url tok)"
  shows "snd (test_business_logic_flaws e st) =
           fst (business_logic_service e (''payment'', url @ '':8084'')
                 (fst (business_logic_service e (''eligibility'', url @ '':8082'') (st, [])), []))"
proof -
  have res: "fst (business_logic_service e s (t, r)) = fst (business_logic_service e s (t, []))"
    for s t r
    by (cases s) (simp add: business_logic_service_def split_beta Let_def)
  have other: "n \<noteq> ''eligibility'' \<Longrightarrow> n \<noteq> ''payment'' \<Longrightarrow>
      fold (business_logic_service e) ((n, u) # rest) (t, r) =
      fold (business_logic_service e) rest (t, dict_set n (tally ''logic_flaws'' 0) r)"
    for n u rest t r
    by (simp add: business_logic_other)
  have pair: "fold (business_logic_service e) (s # rest) (t, r) =
      fold (business_logic_service e) rest
        (fst (business_logic_service e s (t, [])), snd (business_logic_service e s (t, r)))"
    for s rest t r
  proof -
    have eq: "business_logic_service e s (t, r) =
        (fst (business_logic_service e s (t, [])), snd (business_logic_service e s (t, r)))"
      using res [of s t r] by (simp add: prod_eq_iff)
    show ?thesis
      unfolding fold_Cons comp_apply by (subst eq) (rule refl)
  qed
  show ?thesis
    unfolding test_business_logic_flaws_def assms init_def
    apply (simp only: tester.simps split_beta Let_def snd_conv)
    apply (subst other, simp, simp)
    apply (subst other, simp, simp)
    apply (subst pair)
    apply (subst other, simp, simp)
    apply (subst pair)
    apply (subst other, simp, simp)
    apply (subst other, simp, simp)
    apply simp
    done
qed

lemma payment_service_findings:
  "\<exists>ps. vulnerabilities (fst (business_logic_service e (''payment'', u) (t, r))) =
           vulnerabilities t @ ps \<and> list_all (\<lambda>f. service f = ''payment'') ps"
  by (cases "http e (payment_request t u)")
     (simp_all add: business_logic_payment logged_def payment_record_def log_vulnerability_def)







lemma xss_endpoints_post: "ep \<in> set xss_test_endpoints \<Longrightarrow> xe_method ep = ''POST''"
  by (auto simp: xss_test_endpoints_def)


subsection \<open>Substrings, and the payload loop of the SQL probe\<close>







lemma sql_request_cong:
  "auth_token st' = auth_token st \<Longrightarrow> sql_request st' u tc p = sql_request st u tc p"
  using get_headers_cong [of st' st True] by (simp add: sql_request_def)

lemma sql_answer_hit_cong:
  "auth_token st' = auth_token st \<Longrightarrow> sql_answer_hit e st' u tc p = sql_answer_hit e st u tc p"
  using sql_request_cong [of st' st u tc p] by (simp add: sql_answer_hit_def)

lemma sql_all_miss_cong:
  "auth_token st' = auth_token st \<Longrightarrow> sql_all_miss e st' u tc ps = sql_all_miss e st u tc ps"
  using sql_answer_hit_cong [of st' st e u tc] by (simp add: sql_all_miss_def)

lemma sql_loop_miss:
  "sql_all_miss e st u tc ps \<Longrightarrow>
   sql_payload_loop e n u tc ps (st, k) =
     (st\<lparr>sent := sent st @ map (sql_request st u tc) ps\<rparr>, k)"
proof (induction ps arbitrary: st)
  case Nil
  show ?case by simp
next
  case (Cons p ps)
  let ?r = "sql_request st u tc p"
  have tok: "auth_token (logged ?r st) = auth_token st" by (simp add: logged_def)
  from Cons.prems have miss: "\<not> sql_answer_hit e st u tc p" and rest: "sql_all_miss e st u tc ps"
    by (simp_all add: sql_all_miss_def)
  have "sql_all_miss e (logged ?r st) u tc ps"
    using rest by (simp only: sql_all_miss_cong [OF tok])
  then have ih: "sql_payload_loop e n u tc ps (logged ?r st, k) =
      ((logged ?r st)\<lparr>sent := sent (logged ?r st) @ map (sql_request (logged ?r st) u tc) ps\<rparr>, k)"
    by (rule Cons.IH)
  have req: "sql_request (logged ?r st) u tc = sql_request st u tc"
    using sql_request_cong [OF tok] by (simp add: fun_eq_iff)
  have step: "sql_payload_loop e n u tc (p # ps) (st, k) =
      sql_payload_loop e n u tc ps (logged ?r st, k)"
    using miss by (simp add: sql_payload_loop_shape sql_answer_hit_def
        del: sql_payload_loop.simps split: sum.splits)
  show ?case
    by (simp only: step ih req) (simp add: logged_def)
qed









subsection \<open>A scan in which every request raises\<close>

lemma fold_quiet:
  assumes "\<And>x a. vulnerabilities (fst (f x a)) = vulnerabilities (fst a)
                \<and> length (sent (fst (f x a))) = length (sent (fst a)) + c x"
  shows "vulnerabilities (fst (fold f xs a)) = vulnerabilities (fst a)
       \<and> length (sent (fst (fold f xs a))) = length (sent (fst a)) + sum_list (map c xs)"
proof (induction xs arbitrary: a)
  case Nil
  show ?case by simp
next
  case (Cons x xs)
  show ?case using Cons.IH [of "f x a"] assms [of x a] by simp
qed

lemma all_failD: "all_fail e \<Longrightarrow> \<exists>ex. http e r = Inl ex"
  by (cases "http e r") (auto simp: all_fail_def dest: spec [of _ r])

lemma auth_step_quiet:
  assumes "all_fail e"
  shows "vulnerabilities (fst (auth_bypass_step e n u ep a)) = vulnerabilities (fst a)
       \<and> length (sent (fst (auth_bypass_step e n u ep a))) = length (sent (fst a)) + 1"
proof -
  obtain st k where a: "a = (st, k)" by (cases a)
  obtain ex where "http e (get_request (u @ ep)) = Inl ex" using all_failD [OF assms] by blast
  then show ?thesis by (simp add: a auth_bypass_step_shape logged_def)
qed

lemma info_step_quiet:
  assumes "all_fail e"
  shows "vulnerabilities (fst (info_disclosure_step e n u ep a)) = vulnerabilities (fst a)
       \<and> length (sent (fst (info_disclosure_step e n u ep a))) = length (sent (fst a)) + 1"
proof -
  obtain st k where a: "a = (st, k)" by (cases a)
  obtain ex where "http e (get_request (u @ ep)) = Inl ex" using all_failD [OF assms] by blast
  then show ?thesis by (simp add: a info_disclosure_step_shape logged_def)
qed

lemma xss_step_quiet:
  assumes "all_fail e" and "xe_method ep = ''POST''"
  shows "vulnerabilities (fst (xss_step e n u ep p a)) = vulnerabilities (fst a)
       \<and> length (sent (fst (xss_step e n u ep p a))) = length (sent (fst a)) + 1"
proof -
  obtain st k rv where a: "a = (st, k, rv)" by (cases a)
  obtain ex where "http e (xss_request st u ep p) = Inl ex" using all_failD [OF assms(1)] by blast
  then show ?thesis by (simp add: a xss_step_post [OF assms(2)] logged_def)
qed

lemma sql_loop_quiet:
  assumes "all_fail e"
  shows "vulnerabilities (fst (sql_payload_loop e n u tc ps a)) = vulnerabilities (fst a)
       \<and> length (sent (fst (sql_payload_loop e n u tc ps a))) = length (sent (fst a)) + length ps"
proof -
  obtain st k where a: "a = (st, k)" by (cases a)
  have "sql_all_miss e st u tc ps"
    unfolding sql_all_miss_def list_all_iff sql_answer_hit_def
    using all_failD [OF assms] by (metis sum.simps(5))
  from sql_loop_miss [OF this, of n k] show ?thesis by (simp add: a)
qed

lemma business_service_quiet:
  assumes "all_fail e"
  shows "vulnerabilities (fst (business_logic_service e s a)) = vulnerabilities (fst a)
       \<and> length (sent (fst (business_logic_service e s a))) =
           length (sent (fst a)) + (if fst s = ''eligibility'' \<or> fst s = ''payment'' then 1 else 0)"
proof -
  obtain st res where a: "a = (st, res)" by (cases a)
  obtain n u where s: "s = (n, u)" by (cases s)
  obtain ex1 where 1: "http e (eligibility_request st u) = Inl ex1"
    using all_failD [OF assms] by blast
  obtain ex2 where 2: "http e (payment_request st u) = Inl ex2"
    using all_failD [OF assms] by blast
  consider "n = ''eligibility''" | "n = ''payment''" | "n \<noteq> ''eligibility''" "n \<noteq> ''payment''"
    by blast
  then show ?thesis
  proof cases
    case 1
    then show ?thesis using \<open>http e (eligibility_request st u) = Inl ex1\<close>
      by (simp add: a s business_logic_eligibility logged_def)
  next
    case 2
    then show ?thesis using \<open>http e (payment_request st u) = Inl ex2\<close>
      by (simp add: a s business_logic_payment logged_def)
  next
    case 3
    then show ?thesis by (simp add: a s business_logic_other)
  qed
qed

lemma sum_list_const: "sum_list (map (\<lambda>x. c) xs) = length xs * (c::nat)"
  by (induction xs) simp_all

lemma auth_service_quiet:
  assumes "all_fail e"
  shows "vulnerabilities (fst (auth_bypass_service e s a)) = vulnerabilities (fst a)
       \<and> length (sent (fst (auth_bypass_service e s a))) = length (sent (fst a)) + 5"
  using fold_quiet [of "auth_bypass_step e (fst s) (snd s)" "\<lambda>x. 1", OF auth_step_quiet [OF assms],
          of auth_endpoints "(fst a, 0)"]
  by (cases a; cases s) (simp add: auth_bypass_service_shape sum_list_const, simp add: auth_endpoints_def)

lemma info_service_quiet:
  assumes "all_fail e"
  shows "vulnerabilities (fst (info_disclosure_service e s a)) = vulnerabilities (fst a)
       \<and> length (sent (fst (info_disclosure_service e s a))) = length (sent (fst a)) + 5"
  using fold_quiet [of "info_disclosure_step e (fst s) (snd s)" "\<lambda>x. 1",
          OF info_step_quiet [OF assms], of info_endpoints "(fst a, 0)"]
  by (cases a; cases s) (simp add: info_disclosure_service_shape sum_list_const, simp add: info_endpoints_def)

lemma sql_service_quiet:
  assumes "all_fail e"
  shows "vulnerabilities (fst (sql_service e s a)) = vulnerabilities (fst a)
       \<and> length (sent (fst (sql_service e s a))) = length (sent (fst a)) + 15"
  using fold_quiet [of "\<lambda>tc. sql_payload_loop e (fst s) (snd s) tc sql_payloads"
          "\<lambda>x. length sql_payloads", OF sql_loop_quiet [OF assms], of sql_test_cases "(fst a, 0)"]
  by (cases a; cases s)
     (simp add: sql_service_shape sum_list_const, simp add: sql_test_cases_def sql_payloads_def)

lemma xss_service_quiet:
  assumes "all_fail e"
  shows "vulnerabilities (fst (xss_service e s a)) = vulnerabilities (fst a)
       \<and> length (sent (fst (xss_service e s a))) = length (sent (fst a)) + 15"
proof -
  have inner: "vulnerabilities (fst (fold (xss_step e (fst s) (snd s) ep) xss_payloads b))
                 = vulnerabilities (fst b)
             \<and> length (sent (fst (fold (xss_step e (fst s) (snd s) ep) xss_payloads b)))
                 = length (sent (fst b)) + 5"
    if "ep \<in> set xss_test_endpoints" for ep b
    using fold_quiet [of "xss_step e (fst s) (snd s) ep" "\<lambda>x. 1",
            OF xss_step_quiet [OF assms xss_endpoints_post [OF that]], of xss_payloads b]
    by (simp add: sum_list_const) (simp add: xss_payloads_def)
  have outer: "vulnerabilities (fst (fold (\<lambda>ep. fold (xss_step e (fst s) (snd s) ep) xss_payloads)
                   eps b)) = vulnerabilities (fst b)
             \<and> length (sent (fst (fold (\<lambda>ep. fold (xss_step e (fst s) (snd s) ep) xss_payloads)
                   eps b))) = length (sent (fst b)) + 5 * length eps"
    if "set eps \<subseteq> set xss_test_endpoints" for eps b
    using that
  proof (induction eps arbitrary: b)
    case Nil
    show ?case by simp
  next
    case (Cons ep eps)
    then have "ep \<in> set xss_test_endpoints" "set eps \<subseteq> set xss_test_endpoints" by auto
    from inner [OF this(1), of b]
      Cons.IH [OF this(2), of "fold (xss_step e (fst s) (snd s) ep) xss_payloads b"]
    show ?case by simp
  qed
  from outer [of xss_test_endpoints "(fst a, 0, snd (snd a))"] show ?thesis
    by (cases a; cases s) (simp add: xss_service_shape, simp add: xss_test_endpoints_def)
qed

lemma probes_quiet:
  assumes "all_fail e"
  shows "vulnerabilities (snd (test_authentication_bypass e st)) = vulnerabilities st
       \<and> length (sent (snd (test_authentication_bypass e st)))
           = length (sent st) + 5 * length (services st)"
    and "vulnerabilities (snd (test_sql_injection e st)) = vulnerabilities st
       \<and> length (sent (snd (test_sql_injection e st)))
           = length (sent st) + 15 * length (services st)"
    and "vulnerabilities (snd (test_xss_vulnerabilities e st)) = vulnerabilities st
       \<and> length (sent (snd (test_xss_vulnerabilities e st)))
           = length (sent st) + 15 * length (services st)"
    and "vulnerabilities (snd (test_business_logic_flaws e st)) = vulnerabilities st
       \<and> length (sent (snd (test_business_logic_flaws e st)))
           = length (sent st) + business_targets (services st)"
    and "vulnerabilities (snd (test_information_disclosure e st)) = vulnerabilities st
       \<and> length (sent (snd (test_information_disclosure e st)))
           = length (sent st) + 5 * length (services st)"
proof -
  show "vulnerabilities (snd (test_authentication_bypass e st)) = vulnerabilities st
       \<and> length (sent (snd (test_authentication_bypass e st)))
           = length (sent st) + 5 * length (services st)"
    using fold_quiet [of "auth_bypass_service e" "\<lambda>x. 5", OF auth_service_quiet [OF assms],
            of "services st" "(st, [])"]
    by (simp add: test_authentication_bypass_def split_beta sum_list_const)
  show "vulnerabilities (snd (test_sql_injection e st)) = vulnerabilities st
       \<and> length (sent (snd (test_sql_injection e st)))
           = length (sent st) + 15 * length (services st)"
    using fold_quiet [of "sql_service e" "\<lambda>x. 15", OF sql_service_quiet [OF assms],
            of "services st" "(st, [])"]
    by (simp add: test_sql_injection_def split_beta sum_list_const)
  show "vulnerabilities (snd (test_xss_vulnerabilities e st)) = vulnerabilities st
       \<and> length (sent (snd (test_xss_vulnerabilities e st)))
           = length (sent st) + 15 * length (services st)"
    using fold_quiet [of "xss_service e" "\<lambda>x. 15", OF xss_service_quiet [OF assms],
            of "services st" "(st, [], None)"]
    by (simp add: test_xss_vulnerabilities_def split_beta sum_list_const)
  have bt: "sum_list (map (\<lambda>s. if fst s = ''eligibility'' \<or> fst s = ''payment'' then 1 else 0) svcs)
              = business_targets svcs" for svcs :: "(string \<times> string) list"
    by (induction svcs) (simp_all add: business_targets_def)
  show "vulnerabilities (snd (test_business_logic_flaws e st)) = vulnerabilities st
       \<and> length (sent (snd (test_business_logic_flaws e st)))
           = length (sent st) + business_targets (services st)"
    using fold_quiet [of "business_logic_service e"
            "\<lambda>s. if fst s = ''eligibility'' \<or> fst s = ''payment'' then 1 else 0",
            OF business_service_quiet [OF assms], of "services st" "(st, [])"]
    by (simp add: test_business_logic_flaws_def split_beta bt)
  show "vulnerabilities (snd (test_information_disclosure e st)) = vulnerabilities st
       \<and> length (sent (snd (test_information_disclosure e st)))
           = length (sent st) + 5 * length (services st)"
    using fold_quiet [of "info_disclosure_service e" "\<lambda>x. 5", OF info_service_quiet [OF assms],
            of "services st" "(st, [])"]
    by (simp add: test_information_disclosure_def split_beta sum_list_const)
qed

lemma extends_services: "extends st st' \<Longrightarrow> services st' = services st"
  by (simp add: extends_def)

lemma scan_quiet:
  assumes "all_fail e"
  shows "vulnerabilities (snd (run_comprehensive_test e st)) = vulnerabilities st
       \<and> length (sent (snd (run_comprehensive_test e st))) =
           length (sent st) + 40 * length (services st) + business_targets (services st)"
proof -
  let ?s1 = "snd (test_authentication_bypass e st)"
  let ?s2 = "snd (test_sql_injection e ?s1)"
  let ?s3 = "snd (test_xss_vulnerabilities e ?s2)"
  let ?s4 = "snd (test_business_logic_flaws e ?s3)"
  let ?s5 = "snd (test_information_disclosure e ?s4)"
  have v1: "services ?s1 = services st"
    by (rule extends_services [OF test_authentication_bypass_extends])
  have v2: "services ?s2 = services st"
    using extends_services [OF test_sql_injection_extends, of e ?s1] v1 by simp
  have v3: "services ?s3 = services st"
    using extends_services [OF test_xss_vulnerabilities_extends, of e ?s2] v2 by simp
  have v4: "services ?s4 = services st"
    using extends_services [OF test_business_logic_flaws_extends, of e ?s3] v3 by simp
  note q = probes_quiet [OF assms]
  have "vulnerabilities ?s5 = vulnerabilities st
       \<and> length (sent ?s5) =
           length (sent st) + 40 * length (services st) + business_targets (services st)"
    using q(1) [of st] q(2) [of ?s1] q(3) [of ?s2] q(4) [of ?s3] q(5) [of ?s4] v1 v2 v3 v4
    by simp
  then show ?thesis by (simp only: run_comprehensive_test_state)
qed

subsection \<open>Worlds that differ in letter case\<close>









subsection \<open>What a probe appends does not depend on what was found before\<close>

lemma coupled_refl: "snd a = snd b \<Longrightarrow> similar (fst a) (fst b) \<Longrightarrow> coupled a b a b"
  by (simp add: coupled_def)

lemma coupled_trans:
  assumes "coupled a b a' b'" and "coupled a' b' a'' b''"
  shows "coupled a b a'' b''"
proof -
  from assms(1) obtain d where d: "severities (fst a') = severities (fst a) @ d"
    "severities (fst b') = severities (fst b) @ d" unfolding coupled_def by blast
  from assms(2) obtain d' where d': "severities (fst a'') = severities (fst a') @ d'"
    "severities (fst b'') = severities (fst b') @ d'"
    and r: "snd a'' = snd b''" "similar (fst a'') (fst b'')" unfolding coupled_def by blast
  show ?thesis
    unfolding coupled_def
    by (intro conjI r exI [of _ "d @ d'"]) (simp_all add: d d')
qed

lemma coupledD: "coupled a b a' b' \<Longrightarrow> snd a' = snd b' \<and> similar (fst a') (fst b')"
  by (simp add: coupled_def)

lemma fold_coupled:
  assumes step: "\<And>x a b. snd a = snd b \<Longrightarrow> similar (fst a) (fst b) \<Longrightarrow>
                   coupled a b (f x a) (f x b)"
      and "snd a = snd b" and "similar (fst a) (fst b)"
  shows "coupled a b (fold f xs a) (fold f xs b)"
  using assms(2,3)
proof (induction xs arbitrary: a b)
  case Nil
  then show ?case by (simp add: coupled_refl)
next
  case (Cons x xs)
  have 1: "coupled a b (f x a) (f x b)" using Cons.prems by (rule step)
  have 2: "coupled (f x a) (f x b) (fold f xs (f x a)) (fold f xs (f x b))"
    using coupledD [OF 1] by (intro Cons.IH) simp_all
  show ?case using coupled_trans [OF 1 2] by simp
qed

lemma similar_requests:
  assumes "similar s t"
  shows "sql_request s = sql_request t" "xss_request s = xss_request t"
    "eligibility_request s = eligibility_request t" "payment_request s = payment_request t"
  using assms get_headers_cong [of s t True]
  by (simp_all add: similar_def sql_request_def xss_request_def eligibility_request_def
        payment_request_def fun_eq_iff)

lemma similar_logged: "similar s t \<Longrightarrow> similar (logged r s) (logged r' t)"
  by (simp add: similar_def logged_def)

lemma severities_logged: "severities (logged r s) = severities s"
  by (simp add: severities_def logged_def)

lemma record_facts:
  "severities (auth_record e n ep r st) = severities st @ [''HIGH'']"
  "severities (info_record e n ep r st) = severities st @ [''MEDIUM'']"
  "severities (sql_record e n tc p st) = severities st @ [''CRITICAL'']"
  "severities (xss_record e n xep p st) = severities st @ [''HIGH'']"
  "severities (eligibility_record e n r st) = severities st @ [''HIGH'']"
  "severities (payment_record e n r st) = severities st @ [''CRITICAL'']"
  by (simp_all add: severities_def auth_record_def info_record_def sql_record_def
        xss_record_def eligibility_record_def payment_record_def log_vulnerability_def)

lemma record_similar:
  assumes "similar s t"
  shows "similar (auth_record e n ep r s) (auth_record e n ep r t)"
    "similar (info_record e n ep r s) (info_record e n ep r t)"
    "similar (sql_record e n tc p s) (sql_record e n tc p t)"
    "similar (xss_record e n xep p s) (xss_record e n xep p t)"
    "similar (eligibility_record e n r s) (eligibility_record e n r t)"
    "similar (payment_record e n r s) (payment_record e n r t)"
  using assms
  by (simp_all add: similar_def auth_record_def info_record_def sql_record_def
        xss_record_def eligibility_record_def payment_record_def log_vulnerability_def)

lemma coupled_same:
  "similar s' t' \<Longrightarrow> severities s' = severities s @ d \<Longrightarrow> severities t' = severities t @ d \<Longrightarrow>
   coupled (s, x) (t, y) (s', z) (t', z)"
  by (auto simp: coupled_def)

lemmas coupled_simps = coupled_def similar_logged severities_logged record_facts record_similar

lemma auth_step_coupled:
  assumes "snd a = snd b" and "similar (fst a) (fst b)"
  shows "coupled a b (auth_bypass_step e n u ep a) (auth_bypass_step e n u ep b)"
proof -
  obtain s k where a: "a = (s, k)" by (cases a)
  obtain t where b: "b = (t, k)" using assms(1) a by (cases b) simp
  have st: "similar s t" using assms(2) by (simp add: a b)
  show ?thesis
    by (cases "http e (get_request (u @ ep))")
       (simp_all add: a b auth_bypass_step_shape coupled_simps st)
qed

lemma info_step_coupled:
  assumes "snd a = snd b" and "similar (fst a) (fst b)"
  shows "coupled a b (info_disclosure_step e n u ep a) (info_disclosure_step e n u ep b)"
proof -
  obtain s k where a: "a = (s, k)" by (cases a)
  obtain t where b: "b = (t, k)" using assms(1) a by (cases b) simp
  have st: "similar s t" using assms(2) by (simp add: a b)
  show ?thesis
    by (cases "http e (get_request (u @ ep))")
       (simp_all add: a b info_disclosure_step_shape coupled_simps st)
qed

lemma sql_loop_coupled:
  assumes "snd a = snd b" and "similar (fst a) (fst b)"
  shows "coupled a b (sql_payload_loop e n u tc ps a) (sql_payload_loop e n u tc ps b)"
  using assms
proof (induction ps arbitrary: a b)
  case Nil
  then show ?case by (simp add: coupled_refl)
next
  case (Cons p ps)
  obtain s k where a: "a = (s, k)" by (cases a)
  obtain t where b: "b = (t, k)" using Cons.prems(1) a by (cases b) simp
  have st: "similar s t" using Cons.prems(2) by (simp add: a b)
  have rq: "sql_request s u tc p = sql_request t u tc p"
    using similar_requests(1) [OF st] by simp
  let ?r = "sql_request t u tc p"
  have next_step: "coupled a b (sql_payload_loop e n u tc ps (logged ?r s, k))
                     (sql_payload_loop e n u tc ps (logged ?r t, k))"
  proof -
    have 1: "coupled a b (logged ?r s, k) (logged ?r t, k)"
      by (simp add: a b coupled_simps st)
    have 2: "coupled (logged ?r s, k) (logged ?r t, k)
               (sql_payload_loop e n u tc ps (logged ?r s, k))
               (sql_payload_loop e n u tc ps (logged ?r t, k))"
      by (rule Cons.IH) (simp_all add: similar_logged st)
    show ?thesis by (rule coupled_trans [OF 1 2])
  qed
  show ?case
  proof (cases "http e ?r")
    case (Inl x)
    then show ?thesis
      using next_step
      by (simp add: a b sql_payload_loop_shape rq del: sql_payload_loop.simps)
  next
    case (Inr r)
    show ?thesis
    proof (cases "sql_hit r")
      case True
      then show ?thesis
        using Inr
        by (simp add: a b sql_payload_loop_shape rq coupled_simps st
              del: sql_payload_loop.simps)
    next
      case False
      then show ?thesis
        using Inr next_step
        by (simp add: a b sql_payload_loop_shape rq del: sql_payload_loop.simps)
    qed
  qed
qed

lemma xss_step_coupled:
  assumes "snd a = snd b" and "similar (fst a) (fst b)"
  shows "coupled a b (xss_step e n u ep p a) (xss_step e n u ep p b)"
proof -
  obtain s k rv where a: "a = (s, k, rv)" by (cases a)
  obtain t where b: "b = (t, k, rv)" using assms(1) a by (cases b) simp
  have st: "similar s t" using assms(2) by (simp add: a b)
  have rq: "xss_request s u ep p = xss_request t u ep p"
    using similar_requests(2) [OF st] by simp
  show ?thesis
  proof (cases "xe_method ep = ''POST''")
    case True
    show ?thesis
      by (cases "http e (xss_request t u ep p)")
         (simp_all add: a b xss_step_post [OF True] rq coupled_simps st)
  next
    case False
    show ?thesis
      by (cases rv) (simp_all add: a b xss_step_other [OF False] coupled_simps st)
  qed
qed

lemma business_service_coupled:
  assumes "snd a = snd b" and "similar (fst a) (fst b)"
  shows "coupled a b (business_logic_service e sv a) (business_logic_service e sv b)"
proof -
  obtain s res where a: "a = (s, res)" by (cases a)
  obtain t where b: "b = (t, res)" using assms(1) a by (cases b) simp
  obtain n u where sv: "sv = (n, u)" by (cases sv)
  have st: "similar s t" using assms(2) by (simp add: a b)
  have rq: "eligibility_request s u = eligibility_request t u"
    "payment_request s u = payment_request t u"
    using similar_requests(3,4) [OF st] by simp_all
  consider "n = ''eligibility''" | "n = ''payment''" | "n \<noteq> ''eligibility''" "n \<noteq> ''payment''"
    by blast
  then show ?thesis
  proof cases
    case 1
    show ?thesis
      by (cases "http e (eligibility_request t u)")
         (simp_all add: a b sv 1 business_logic_eligibility rq coupled_simps st)
  next
    case 2
    show ?thesis
      by (cases "http e (payment_request t u)")
         (simp_all add: a b sv 2 business_logic_payment rq coupled_simps st)
  next
    case 3
    then show ?thesis by (simp add: a b sv business_logic_other coupled_def st)
  qed
qed

lemma coupled_lift:
  "coupled (s, x) (t, x) A B \<Longrightarrow> coupled (s, y) (t, y) (fst A, g (snd A)) (fst B, g (snd B))"
  by (auto simp: coupled_def)

lemma coupled_linked: "coupled (s, x) (t, y) A B \<Longrightarrow> linked s t (fst A) (fst B)"
  by (auto simp: coupled_def linked_def)

lemma auth_service_coupled:
  assumes "snd a = snd b" and "similar (fst a) (fst b)"
  shows "coupled a b (auth_bypass_service e sv a) (auth_bypass_service e sv b)"
proof -
  obtain s res where a: "a = (s, res)" by (cases a)
  obtain t where b: "b = (t, res)" using assms(1) a by (cases b) simp
  obtain n u where sv: "sv = (n, u)" by (cases sv)
  have "coupled (s, 0) (t, 0) (fold (auth_bypass_step e n u) auth_endpoints (s, 0))
          (fold (auth_bypass_step e n u) auth_endpoints (t, 0))"
    using assms(2) by (intro fold_coupled auth_step_coupled) (simp_all add: a b)
  from coupled_lift [OF this, of res "\<lambda>k. dict_set n (tally ''bypass_attempts'' k) res"]
  show ?thesis by (simp add: a b sv auth_bypass_service_shape)
qed

lemma info_service_coupled:
  assumes "snd a = snd b" and "similar (fst a) (fst b)"
  shows "coupled a b (info_disclosure_service e sv a) (info_disclosure_service e sv b)"
proof -
  obtain s res where a: "a = (s, res)" by (cases a)
  obtain t where b: "b = (t, res)" using assms(1) a by (cases b) simp
  obtain n u where sv: "sv = (n, u)" by (cases sv)
  have "coupled (s, 0) (t, 0) (fold (info_disclosure_step e n u) info_endpoints (s, 0))
          (fold (info_disclosure_step e n u) info_endpoints (t, 0))"
    using assms(2) by (intro fold_coupled info_step_coupled) (simp_all add: a b)
  from coupled_lift [OF this, of res "\<lambda>k. dict_set n (tally ''disclosure_issues'' k) res"]
  show ?thesis by (simp add: a b sv info_disclosure_service_shape)
qed

lemma sql_service_coupled:
  assumes "snd a = snd b" and "similar (fst a) (fst b)"
  shows "coupled a b (sql_service e sv a) (sql_service e sv b)"
proof -
  obtain s res where a: "a = (s, res)" by (cases a)
  obtain t where b: "b = (t, res)" using assms(1) a by (cases b) simp
  obtain n u where sv: "sv = (n, u)" by (cases sv)
  have "coupled (s, 0) (t, 0)
          (fold (\<lambda>tc. sql_payload_loop e n u tc sql_payloads) sql_test_cases (s, 0))
          (fold (\<lambda>tc. sql_payload_loop e n u tc sql_payloads) sql_test_cases (t, 0))"
    using assms(2) by (intro fold_coupled sql_loop_coupled) (simp_all add: a b)
  from coupled_lift [OF this, of res "\<lambda>k. dict_set n (tally ''vulnerable_endpoints'' k) res"]
  show ?thesis by (simp add: a b sv sql_service_shape)
qed

lemma xss_service_coupled:
  assumes "snd a = snd b" and "similar (fst a) (fst b)"
  shows "coupled a b (xss_service e sv a) (xss_service e sv b)"
proof -
  obtain s res rv where a: "a = (s, res, rv)" by (cases a)
  obtain t where b: "b = (t, res, rv)" using assms(1) a by (cases b) simp
  obtain n u where sv: "sv = (n, u)" by (cases sv)
  have "coupled (s, 0, rv) (t, 0, rv)
          (fold (\<lambda>ep. fold (xss_step e n u ep) xss_payloads) xss_test_endpoints (s, 0, rv))
          (fold (\<lambda>ep. fold (xss_step e n u ep) xss_payloads) xss_test_endpoints (t, 0, rv))"
    using assms(2) by (intro fold_coupled xss_step_coupled) (simp_all add: a b)
  from coupled_lift [OF this, of "(res, rv)"
      "\<lambda>x. (dict_set n (tally ''vulnerable_fields'' (fst x)) res, snd x)"]
  show ?thesis by (simp add: a b sv xss_service_shape)
qed

lemma run_probe_linked:
  assumes "similar s t"
  shows "linked s t (run_probe e p s) (run_probe e p t)"
proof -
  have sv: "services s = services t" using assms by (simp add: similar_def)
  show ?thesis
  proof (cases p)
    case AuthenticationBypass
    have "coupled (s, []) (t, []) (fold (auth_bypass_service e) (services t) (s, []))
            (fold (auth_bypass_service e) (services t) (t, []))"
      using assms by (intro fold_coupled auth_service_coupled) simp_all
    from coupled_linked [OF this] show ?thesis
      by (simp add: AuthenticationBypass test_authentication_bypass_def split_beta sv)
  next
    case SqlInjection
    have "coupled (s, []) (t, []) (fold (sql_service e) (services t) (s, []))
            (fold (sql_service e) (services t) (t, []))"
      using assms by (intro fold_coupled sql_service_coupled) simp_all
    from coupled_linked [OF this] show ?thesis
      by (simp add: SqlInjection test_sql_injection_def split_beta sv)
  next
    case Xss
    have "coupled (s, [], None) (t, [], None) (fold (xss_service e) (services t) (s, [], None))
            (fold (xss_service e) (services t) (t, [], None))"
      using assms by (intro fold_coupled xss_service_coupled) simp_all
    from coupled_linked [OF this] show ?thesis
      by (simp add: Xss test_xss_vulnerabilities_def split_beta sv)
  next
    case BusinessLogic
    have "coupled (s, []) (t, []) (fold (business_logic_service e) (services t) (s, []))
            (fold (business_logic_service e) (services t) (t, []))"
      using assms by (intro fold_coupled business_service_coupled) simp_all
    from coupled_linked [OF this] show ?thesis
      by (simp add: BusinessLogic test_business_logic_flaws_def split_beta sv)
  next
    case InformationDisclosure
    have "coupled (s, []) (t, []) (fold (info_disclosure_service e) (services t) (s, []))
            (fold (info_disclosure_service e) (services t) (t, []))"
      using assms by (intro fold_coupled info_service_coupled) simp_all
    from coupled_linked [OF this] show ?thesis
      by (simp add: InformationDisclosure test_information_disclosure_def split_beta sv)
  qed
qed

lemma run_probe_extends: "extends st (run_probe e p st)"
  by (cases p)
     (simp_all add: test_authentication_bypass_extends test_sql_injection_extends
        test_xss_vulnerabilities_extends test_business_logic_flaws_extends
        test_information_disclosure_extends)

lemma run_probe_delta:
  assumes "similar t st0"
  shows "severities (run_probe e p t) = severities t @ delta e st0 p
       \<and> similar (run_probe e p t) st0"
proof -
  from run_probe_linked [OF assms, of e p] obtain d where
    d: "severities (run_probe e p t) = severities t @ d"
       "severities (run_probe e p st0) = severities st0 @ d"
    and s: "similar (run_probe e p t) (run_probe e p st0)"
    unfolding linked_def by blast
  have "delta e st0 p = d" by (simp add: delta_def d(2))
  moreover have "similar (run_probe e p st0) st0"
    using run_probe_extends [of st0 e p] by (simp add: extends_def similar_def)
  ultimately show ?thesis using d(1) s by (simp add: similar_def)
qed

lemma run_probes_severities:
  "similar t st0 \<Longrightarrow>
   severities (run_probes e ps t) = severities t @ concat (map (delta e st0) ps)"
proof (induction ps arbitrary: t)
  case Nil
  show ?case by (simp add: run_probes_def)
next
  case (Cons p ps)
  from run_probe_delta [OF Cons.prems, of e p]
  have 1: "severities (run_probe e p t) = severities t @ delta e st0 p"
    and 2: "similar (run_probe e p t) st0" by simp_all
  from Cons.IH [OF 2] 1 show ?case by (simp add: run_probes_def)
qed

lemma count_severity_severities:
  "count_severity c st = length (filter (\<lambda>x. x = c) (severities st))"
  by (simp add: count_severity_def severities_def filter_map o_def)

lemma length_filter_concat:
  "length (filter P (concat xss)) = sum_list (map (\<lambda>xs. length (filter P xs)) xss)"
  by (induction xss) simp_all

lemma sum_list_rearranged:
  assumes "distinct ps" "distinct qs" "set ps = set qs"
  shows "sum_list (map f ps) = (sum_list (map f qs) :: nat)"
  using assms by (simp add: sum_list_distinct_conv_sum_set)

lemma similar_refl: "similar st st"
  by (simp add: similar_def)

lemma run_probes_count:
  "count_severity c (run_probes e ps st) =
     count_severity c st
     + sum_list (map (\<lambda>p. length (filter (\<lambda>x. x = c) (delta e st p))) ps)"
  by (simp add: count_severity_severities run_probes_severities [OF similar_refl]
        length_filter_concat o_def)

lemma run_probes_total:
  "length (vulnerabilities (run_probes e ps st)) =
     length (vulnerabilities st) + sum_list (map (\<lambda>p. length (delta e st p)) ps)"
proof -
  have "length (severities (run_probes e ps st)) =
          length (severities st) + sum_list (map (\<lambda>p. length (delta e st p)) ps)"
    by (simp add: run_probes_severities [OF similar_refl] length_concat o_def)
  then show ?thesis by (simp add: severities_def)
qed

lemma distinct_source_order: "distinct source_order"
  by (simp add: source_order_def)

lemma run_comprehensive_test_probes:
  "snd (run_comprehensive_test e st) = run_probes e source_order st"
  by (simp add: run_comprehensive_test_state run_probes_def source_order_def)

subsection \<open>Status derivation\<close>

text \<open>
  C1. The overall status is \<open>CRITICAL_RISK\<close> when there is a CRITICAL finding, else
  \<open>HIGH_RISK\<close> when there are more than three HIGH findings, else \<open>MEDIUM_RISK\<close> when
  there is at least one HIGH finding, else \<open>LOW_RISK\<close>. In particular one CRITICAL
  finding gives \<open>CRITICAL_RISK\<close> whatever the other counts, no CRITICAL and four HIGH
  give \<open>HIGH_RISK\<close>, no CRITICAL and one HIGH give \<open>MEDIUM_RISK\<close>, and neither gives
  \<open>LOW_RISK\<close>.
\<close>

theorem status_derivation:
  fixes st :: tester
  defines "c \<equiv> length (filter (\<lambda>v. severity v = ''CRITICAL'') (vulnerabilities st))"
      and "h \<equiv> length (filter (\<lambda>v. severity v = ''HIGH'') (vulnerabilities st))"
  shows "get_overall_security_status st =
           (if c > 0 then ''CRITICAL_RISK''
            else if h > 3 then ''HIGH_RISK''
            else if h \<ge> 1 then ''MEDIUM_RISK''
            else ''LOW_RISK'')
         \<and> (c = 1 \<longrightarrow> get_overall_security_status st = ''CRITICAL_RISK'')
         \<and> (c = 0 \<and> h = 4 \<longrightarrow> get_overall_security_status st = ''HIGH_RISK'')
         \<and> (c = 0 \<and> h = 1 \<longrightarrow> get_overall_security_status st = ''MEDIUM_RISK'')
         \<and> (c = 0 \<and> h = 0 \<longrightarrow> get_overall_security_status st = ''LOW_RISK'')"
  unfolding c_def h_def
  by (auto simp add: get_overall_security_status_def count_severity_def Let_def
      simp del: length_greater_0_conv)

theorem status_derivation_witness:
  "get_overall_security_status (with_findings [''HIGH'', ''CRITICAL'', ''HIGH'', ''MEDIUM''])
     = ''CRITICAL_RISK''
   \<and> get_overall_security_status
         (with_findings [''HIGH'', ''HIGH'', ''MEDIUM'', ''HIGH'', ''HIGH'']) = ''HIGH_RISK''
   \<and> get_overall_security_status (with_findings [''MEDIUM'', ''HIGH'', ''LOW''])
         = ''MEDIUM_RISK''
   \<and> get_overall_security_status (with_findings [''MEDIUM'', ''LOW'']) = ''LOW_RISK''"
  using status_derivation [of "with_findings [''HIGH'', ''CRITICAL'', ''HIGH'', ''MEDIUM'']"]
        status_derivation [of "with_findings [''HIGH'', ''HIGH'', ''MEDIUM'', ''HIGH'', ''HIGH'']"]
        status_derivation [of "with_findings [''MEDIUM'', ''HIGH'', ''LOW'']"]
        status_derivation [of "with_findings [''MEDIUM'', ''LOW'']"]
  by (simp add: with_findings_def mk_finding_def)

subsection \<open>Authentication that succeeds without a token\<close>

text \<open>
  C10. When the login answer has status 200 and a JSON object without the field
  \<open>accessToken\<close>, \<open>authenticate\<close> reports success, the stored token becomes
  \<open>None\<close>, and no request of the following scan carries an \<open>Authorization\<close> header.
\<close>

theorem success_without_token:
  assumes "map_of (services st) ''registration'' = Some base"
      and "http e (login_request base email password) = Inr resp"
      and "status_code resp = 200"
      and "json_body resp = Some (JObject kvs)"
      and "map_of kvs ''accessToken'' = None"
  shows "fst (authenticate e email password st) = True
       \<and> auth_token (snd (authenticate e email password st)) = JNull
       \<and> map_of (get_headers (snd (authenticate e email password st)) True) ''Authorization''
           = None
       \<and> list_all no_authorization
           (drop (length (sent (snd (authenticate e email password st))))
              (sent (snd (run_comprehensive_test e (snd (authenticate e email password st))))))"
proof -
  let ?st' = "snd (authenticate e email password st)"
  have a: "authenticate e email password st =
             (True, st\<lparr>sent := sent st @ [login_request base email password],
                       auth_token := JNull\<rparr>)"
    using assms by (simp add: authenticate_def login_request_def send_def Let_def)
  have tok: "auth_token ?st' = JNull" by (simp add: a)
  have hdr: "map_of (get_headers ?st' True) ''Authorization'' = None"
    by (simp add: get_headers_def tok Let_def)
  have "probe_headers ?st' r \<Longrightarrow> no_authorization r" for r
    using hdr by (auto simp: probe_headers_def no_authorization_def)
  then have "list_all no_authorization rs" if "list_all (probe_headers ?st') rs" for rs
    using that by (induction rs) auto
  then have "list_all no_authorization
           (drop (length (sent ?st')) (sent (snd (run_comprehensive_test e ?st'))))"
    using extends_sent [OF run_comprehensive_test_extends [of ?st' e]] by blast
  then show ?thesis using tok hdr by (simp add: a)
qed

theorem success_without_token_witness:
  "map_of (services (init ''http://h'' (JString ''old''))) ''registration''
     = Some ''http://h:8080''
   \<and> http tokenless_login_env (login_request ''http://h:8080'' ''a@b'' ''pw'')
       = Inr \<lparr> status_code = 200, resp_text = ''{}'', json_body = Some (JObject []) \<rparr>
   \<and> fst (authenticate tokenless_login_env ''a@b'' ''pw'' (init ''http://h'' (JString ''old'')))
       = True
   \<and> auth_token (snd (authenticate tokenless_login_env ''a@b'' ''pw''
         (init ''http://h'' (JString ''old'')))) = JNull
   \<and> list_all no_authorization
         (drop (length (sent (snd (authenticate tokenless_login_env ''a@b'' ''pw''
                   (init ''http://h'' (JString ''old''))))))
            (sent (snd (run_comprehensive_test tokenless_login_env
               (snd (authenticate tokenless_login_env ''a@b'' ''pw''
                  (init ''http://h'' (JString ''old''))))))))"
proof -
  have 1: "map_of (services (init ''http://h'' (JString ''old''))) ''registration''
             = Some ''http://h:8080''"
    by (simp add: init_def)
  have 2: "http tokenless_login_env (login_request ''http://h:8080'' ''a@b'' ''pw'')
       = Inr \<lparr> status_code = 200, resp_text = ''{}'', json_body = Some (JObject []) \<rparr>"
    by (simp add: tokenless_login_env_def login_request_def)
  show ?thesis
    using 1 2 success_without_token [OF 1 2, of "[]"] by simp
qed

subsection \<open>The authenticator\<close>




subsection \<open>No finding of severity LOW\<close>

text \<open>
  C9. Every finding appended by any of the five probes has severity CRITICAL, HIGH or
  MEDIUM. So when the findings present before the scan are of these severities (none
  are, in a fresh tester), the summary of \<open>run_comprehensive_test\<close> has \<open>low = 0\<close> and
  \<open>total_vulnerabilities = critical + high + medium\<close>.
\<close>

theorem no_low_findings:
  assumes "list_all allowed_severity (vulnerabilities st)"
  shows "list_all allowed_severity
           (drop (length (vulnerabilities st))
              (vulnerabilities (snd (test_authentication_bypass e st))))
       \<and> list_all allowed_severity
           (drop (length (vulnerabilities st)) (vulnerabilities (snd (test_sql_injection e st))))
       \<and> list_all allowed_severity
           (drop (length (vulnerabilities st))
              (vulnerabilities (snd (test_xss_vulnerabilities e st))))
       \<and> list_all allowed_severity
           (drop (length (vulnerabilities st))
              (vulnerabilities (snd (test_business_logic_flaws e st))))
       \<and> list_all allowed_severity
           (drop (length (vulnerabilities st))
              (vulnerabilities (snd (test_information_disclosure e st))))
       \<and> list_all allowed_severity (vulnerabilities (snd (run_comprehensive_test e st)))
       \<and> low (vulnerability_breakdown (fst (run_comprehensive_test e st))) = 0
       \<and> total_vulnerabilities (fst (run_comprehensive_test e st)) =
           critical (vulnerability_breakdown (fst (run_comprehensive_test e st)))
         + high (vulnerability_breakdown (fst (run_comprehensive_test e st)))
         + medium (vulnerability_breakdown (fst (run_comprehensive_test e st)))"
proof -
  let ?st' = "snd (run_comprehensive_test e st)"
  obtain fs where fs: "vulnerabilities ?st' = vulnerabilities st @ fs"
    "list_all allowed_severity fs"
    using run_comprehensive_test_extends [of st e] unfolding extends_def by blast
  with assms have all: "list_all allowed_severity (vulnerabilities ?st')" by simp
  have s: "fst (run_comprehensive_test e st) =
             summarise (test_results (fst (run_comprehensive_test e st))) ?st'"
    by (rule run_comprehensive_test_summary)
  have lo: "low (vulnerability_breakdown (fst (run_comprehensive_test e st))) = 0"
    by (subst s) (simp add: summarise_def Let_def count_severity_def count_allowed [OF all])
  have tot: "total_vulnerabilities (fst (run_comprehensive_test e st)) =
           critical (vulnerability_breakdown (fst (run_comprehensive_test e st)))
         + high (vulnerability_breakdown (fst (run_comprehensive_test e st)))
         + medium (vulnerability_breakdown (fst (run_comprehensive_test e st)))"
    apply (subst s, subst (2) s, subst (3) s, subst (4) s)
    using count_allowed [OF all] by (simp add: summarise_def Let_def count_severity_def)
  show ?thesis
    using all lo tot
      extends_appended [OF test_authentication_bypass_extends, of st e]
      extends_appended [OF test_sql_injection_extends, of st e]
      extends_appended [OF test_xss_vulnerabilities_extends, of st e]
      extends_appended [OF test_business_logic_flaws_extends, of st e]
      extends_appended [OF test_information_disclosure_extends, of st e]
    by simp
qed

theorem no_low_findings_witness:
  "list_all allowed_severity (vulnerabilities (init ''http://h'' JNull))
   \<and> low (vulnerability_breakdown
        (fst (run_comprehensive_test vulnerable_env (init ''http://h'' JNull)))) = 0"
proof -
  have h: "list_all allowed_severity (vulnerabilities (init ''http://h'' JNull))"
    by (simp add: init_def)
  show ?thesis
    using h no_low_findings [OF h, of vulnerable_env] by simp
qed

subsection \<open>The business-logic probe on the eligibility service\<close>

text \<open>
  C7. The business-logic probe submits \<open>monthlyIncome = -50000\<close> to the assessments
  endpoint of the eligibility service. When the answer has status 201 (or 200) it records
  exactly one finding for the eligibility service, of severity HIGH; on any other status,
  400 in particular, it records none for that service.
\<close>

theorem negative_income_finding:
  assumes "services st = services (init url tok)"
      and "http e (eligibility_request st (url @ '':8082'')) = Inr resp"
  shows "map_of (services st) ''eligibility'' = Some (url @ '':8082'')
       \<and> eligibility_request st (url @ '':8082'') \<in> set (sent (snd (test_business_logic_flaws e st)))
       \<and> map severity (eligibility_findings st (snd (test_business_logic_flaws e st))) =
           (if status_code resp = 200 \<or> status_code resp = 201 then [''HIGH''] else [])
       \<and> (status_code resp = 201 \<longrightarrow>
            map severity (eligibility_findings st (snd (test_business_logic_flaws e st)))
              = [''HIGH''])
       \<and> (status_code resp = 400 \<longrightarrow>
            eligibility_findings st (snd (test_business_logic_flaws e st)) = [])"
proof -
  let ?r = "eligibility_request st (url @ '':8082'')"
  let ?s1 = "fst (business_logic_service e (''eligibility'', url @ '':8082'') (st, []))"
  let ?s2 = "fst (business_logic_service e (''payment'', url @ '':8084'') (?s1, []))"
  have fin: "snd (test_business_logic_flaws e st) = ?s2"
    by (rule business_logic_state [OF assms(1)])
  have s1: "?s1 = (if accepted resp
                   then eligibility_record e ''eligibility'' resp (logged ?r st)
                   else logged ?r st)"
    by (simp add: business_logic_eligibility assms(2))
  obtain ps where ps: "vulnerabilities ?s2 = vulnerabilities ?s1 @ ps"
    "list_all (\<lambda>f. service f = ''payment'') ps"
    using payment_service_findings [of e "url @ '':8084''" ?s1 "[]"] by blast
  have nops: "filter (\<lambda>f. service f = ''eligibility'') ps = []"
    using ps(2) by (induction ps) auto
  have v1: "vulnerabilities ?s1 = vulnerabilities st @
       (if accepted resp
        then [\<lparr> timestamp = now e (length (vulnerabilities st)),
                service = ''eligibility'', vuln_type = ''Business Logic Bypass'',
                severity = ''HIGH'',
                description = ''Negative income values accepted in eligibility assessment'',
                evidence = ''Negative income (-50000) was accepted: '' @
                             str_int (status_code resp),
                recommendation = ''Implement server-side business rule validation'' \<rparr>]
        else [])"
    by (simp add: s1 eligibility_record_def log_vulnerability_def logged_def)
  have main: "map severity (eligibility_findings st ?s2) =
           (if status_code resp = 200 \<or> status_code resp = 201 then [''HIGH''] else [])"
    by (simp add: eligibility_findings_def ps(1) v1 nops accepted_def)
  have "extends ?s1 ?s2" using business_logic_service_extends [of "(?s1, [])" e] by simp
  then have "set (sent ?s1) \<subseteq> set (sent ?s2)" by (auto simp: extends_def)
  moreover have "?r \<in> set (sent ?s1)" by (simp add: s1 eligibility_record_def
        log_vulnerability_def logged_def)
  ultimately have snt: "?r \<in> set (sent ?s2)" by blast
  have svc: "map_of (services st) ''eligibility'' = Some (url @ '':8082'')"
    by (simp add: assms(1) init_def)
  show ?thesis
    using main snt svc by (auto simp add: fin)
qed

theorem negative_income_finding_witness:
  "services (init ''http://h'' JNull) = services (init ''http://h'' JNull)
   \<and> http (answering 201 ''{}'') (eligibility_request (init ''http://h'' JNull) (''http://h'' @ '':8082''))
       = Inr \<lparr> status_code = 201, resp_text = ''{}'', json_body = None \<rparr>
   \<and> map severity (eligibility_findings (init ''http://h'' JNull)
         (snd (test_business_logic_flaws (answering 201 ''{}'') (init ''http://h'' JNull))))
       = [''HIGH'']
   \<and> http (answering 400 ''{}'') (eligibility_request (init ''http://h'' JNull) (''http://h'' @ '':8082''))
       = Inr \<lparr> status_code = 400, resp_text = ''{}'', json_body = None \<rparr>
   \<and> eligibility_findings (init ''http://h'' JNull)
         (snd (test_business_logic_flaws (answering 400 ''{}'') (init ''http://h'' JNull))) = []"
proof -
  let ?st = "init ''http://h'' JNull"
  have 1: "services ?st = services (init ''http://h'' JNull)" by simp
  have 2: "http (answering 201 ''{}'') (eligibility_request ?st (''http://h'' @ '':8082''))
       = Inr \<lparr> status_code = 201, resp_text = ''{}'', json_body = None \<rparr>"
    by (simp add: answering_def)
  have 3: "http (answering 400 ''{}'') (eligibility_request ?st (''http://h'' @ '':8082''))
       = Inr \<lparr> status_code = 400, resp_text = ''{}'', json_body = None \<rparr>"
    by (simp add: answering_def)
  show ?thesis
    using 2 3 negative_income_finding [OF 1 2] negative_income_finding [OF 1 3]
    by simp
qed

subsection \<open>The XSS probe\<close>



subsection \<open>The SQL-injection probe\<close>



subsection \<open>Fault isolation\<close>

text \<open>
  C5. In each of the five probes, when the request of a triple raises, the loop goes on
  with the remaining triples from a tester that differs only by the request added to the
  trace: no finding is recorded and the tally is unchanged. When every request of a scan
  raises, the scan still issues all its requests (40 for each service, and one for each
  service named eligibility or payment) and records no finding.
\<close>

theorem request_failure_isolated:
  "(http e (get_request (u @ ep)) = Inl ex \<longrightarrow>
      fold (auth_bypass_step e n u) (ep # eps) (st, k) =
      fold (auth_bypass_step e n u) eps (logged (get_request (u @ ep)) st, k))
   \<and> (http e (sql_request st u tc p) = Inl ex \<longrightarrow>
      sql_payload_loop e n u tc (p # ps) (st, k) =
      sql_payload_loop e n u tc ps (logged (sql_request st u tc p) st, k))
   \<and> (xep \<in> set xss_test_endpoints \<and> http e (xss_request st u xep p) = Inl ex \<longrightarrow>
      fold (xss_step e n u xep) (p # ps) (st, k, rv) =
      fold (xss_step e n u xep) ps (logged (xss_request st u xep p) st, k, rv))
   \<and> (http e (eligibility_request st u) = Inl ex \<longrightarrow>
      fold (business_logic_service e) ((''eligibility'', u) # svcs) (st, res) =
      fold (business_logic_service e) svcs
        (logged (eligibility_request st u) st,
         dict_set ''eligibility'' (tally ''logic_flaws'' 0) res))
   \<and> (http e (payment_request st u) = Inl ex \<longrightarrow>
      fold (business_logic_service e) ((''payment'', u) # svcs) (st, res) =
      fold (business_logic_service e) svcs
        (logged (payment_request st u) st,
         dict_set ''payment'' (tally ''logic_flaws'' 0) res))
   \<and> (http e (get_request (u @ ep)) = Inl ex \<longrightarrow>
      fold (info_disclosure_step e n u) (ep # eps) (st, k) =
      fold (info_disclosure_step e n u) eps (logged (get_request (u @ ep)) st, k))
   \<and> (all_fail e \<longrightarrow>
      vulnerabilities (snd (run_comprehensive_test e st)) = vulnerabilities st
      \<and> length (sent (snd (run_comprehensive_test e st))) =
          length (sent st) + 40 * length (services st) + business_targets (services st))"
proof (intro conjI impI)
  assume "http e (get_request (u @ ep)) = Inl ex"
  then show "fold (auth_bypass_step e n u) (ep # eps) (st, k) =
      fold (auth_bypass_step e n u) eps (logged (get_request (u @ ep)) st, k)"
    by (simp add: auth_bypass_step_shape)
next
  assume "http e (sql_request st u tc p) = Inl ex"
  then show "sql_payload_loop e n u tc (p # ps) (st, k) =
      sql_payload_loop e n u tc ps (logged (sql_request st u tc p) st, k)"
    by (simp add: sql_payload_loop_shape del: sql_payload_loop.simps)
next
  assume "xep \<in> set xss_test_endpoints \<and> http e (xss_request st u xep p) = Inl ex"
  then show "fold (xss_step e n u xep) (p # ps) (st, k, rv) =
      fold (xss_step e n u xep) ps (logged (xss_request st u xep p) st, k, rv)"
    by (simp add: xss_step_post [OF xss_endpoints_post])
next
  assume "http e (eligibility_request st u) = Inl ex"
  then show "fold (business_logic_service e) ((''eligibility'', u) # svcs) (st, res) =
      fold (business_logic_service e) svcs
        (logged (eligibility_request st u) st,
         dict_set ''eligibility'' (tally ''logic_flaws'' 0) res)"
    by (simp add: business_logic_eligibility)
next
  assume "http e (payment_request st u) = Inl ex"
  then show "fold (business_logic_service e) ((''payment'', u) # svcs) (st, res) =
      fold (business_logic_service e) svcs
        (logged (payment_request st u) st,
         dict_set ''payment'' (tally ''logic_flaws'' 0) res)"
    by (simp add: business_logic_payment)
next
  assume "http e (get_request (u @ ep)) = Inl ex"
  then show "fold (info_disclosure_step e n u) (ep # eps) (st, k) =
      fold (info_disclosure_step e n u) eps (logged (get_request (u @ ep)) st, k)"
    by (simp add: info_disclosure_step_shape)
next
  assume "all_fail e"
  then show "vulnerabilities (snd (run_comprehensive_test e st)) = vulnerabilities st"
    by (simp add: scan_quiet)
next
  assume "all_fail e"
  then show "length (sent (snd (run_comprehensive_test e st))) =
          length (sent st) + 40 * length (services st) + business_targets (services st)"
    by (simp add: scan_quiet)
qed

theorem request_failure_isolated_witness:
  "all_fail unreachable_env
   \<and> vulnerabilities (snd (run_comprehensive_test unreachable_env (init ''http://h'' JNull))) = []
   \<and> length (sent (snd (run_comprehensive_test unreachable_env (init ''http://h'' JNull)))) = 282"
proof -
  have 1: "all_fail unreachable_env" by (simp add: all_fail_def unreachable_env_def)
  have 2: "business_targets (services (init ''http://h'' JNull)) = 2"
    by (simp add: business_targets_def init_def)
  have 3: "length (services (init ''http://h'' JNull)) = 7" "sent (init ''http://h'' JNull) = []"
    "vulnerabilities (init ''http://h'' JNull) = []"
    by (simp_all add: init_def)
  show ?thesis
    using 1 request_failure_isolated [where e = unreachable_env and st = "init ''http://h'' JNull"]
    by (simp add: 2 3)
qed

subsection \<open>Letter case of the response body\<close>




subsection \<open>Order of the probes\<close>

text \<open>
  C8. For a fixed world, that is a fixed mapping from requests to answers, running the
  five probes in any order (\<open>ps\<close> lists each of the five once) gives the same severity
  histogram, the same total number of findings and the same overall status as
  \<open>run_comprehensive_test\<close>, which runs them in the order of the source.
\<close>

theorem probe_order_insensitive:
  assumes "distinct ps" and "set ps = set source_order"
  shows "snd (run_comprehensive_test e st) = run_probes e source_order st
       \<and> vulnerability_breakdown (summarise r (run_probes e ps st)) =
           vulnerability_breakdown (fst (run_comprehensive_test e st))
       \<and> total_vulnerabilities (summarise r (run_probes e ps st)) =
           total_vulnerabilities (fst (run_comprehensive_test e st))
       \<and> overall_security_status (summarise r (run_probes e ps st)) =
           overall_security_status (fst (run_comprehensive_test e st))"
proof -
  have c: "count_severity c (run_probes e ps st) = count_severity c (run_probes e source_order st)"
    for c
    unfolding run_probes_count
    using sum_list_rearranged [OF assms(1) distinct_source_order assms(2)] by simp
  have t: "length (vulnerabilities (run_probes e ps st)) =
           length (vulnerabilities (run_probes e source_order st))"
    unfolding run_probes_total
    using sum_list_rearranged [OF assms(1) distinct_source_order assms(2)] by simp
  have s: "fst (run_comprehensive_test e st) =
        summarise (test_results (fst (run_comprehensive_test e st)))
          (run_probes e source_order st)"
    using run_comprehensive_test_summary [of e st]
    by (simp only: run_comprehensive_test_probes)
  note f = arg_cong [OF s, of vulnerability_breakdown] arg_cong [OF s, of total_vulnerabilities]
    arg_cong [OF s, of overall_security_status]
  show ?thesis
    by (simp only: f)
       (simp add: run_comprehensive_test_probes summarise_def Let_def c t
          get_overall_security_status_def)
qed

theorem probe_order_insensitive_witness:
  "distinct (rev source_order) \<and> set (rev source_order) = set source_order
   \<and> vulnerability_breakdown
        (summarise [] (run_probes vulnerable_env (rev source_order) (init ''http://h'' JNull))) =
      vulnerability_breakdown
        (fst (run_comprehensive_test vulnerable_env (init ''http://h'' JNull)))
   \<and> overall_security_status
        (summarise [] (run_probes vulnerable_env (rev source_order) (init ''http://h'' JNull))) =
      overall_security_status
        (fst (run_comprehensive_test vulnerable_env (init ''http://h'' JNull)))"
proof -
  have 1: "distinct (rev source_order)" by (simp add: source_order_def)
  have 2: "set (rev source_order) = set source_order" by simp
  show ?thesis
    using 1 2 probe_order_insensitive [OF 1 2, of vulnerable_env "init ''http://h'' JNull" "[]"]
    by blast
qed

end
